theory Spec2Isabelle
  imports Complex_Main "HOL-Library.AList" "HOL-Library.Char_ord" "HOL-Library.List_Lexorder" "HOL-Library.Sublist"
begin

section \<open>Strings\<close>

text \<open>
  A Python \<open>str\<close> is modelled as a list of characters, each character being one code
  point in the range 0..255 (Latin-1). The character classes below are the ones Python 3
  uses on that range: \<open>str.isspace\<close> (also used by \<open>strip\<close>, \<open>split\<close> and the regular
  expression class \<open>\s\<close>), the class \<open>\w\<close> of the \<open>re\<close> module, and \<open>str.lower\<close>.
  Similarity scores are Python floats in the source; they are modelled as exact reals.
\<close>

definition is_space :: "char \<Rightarrow> bool" where
  "is_space c = (let n = (of_char c :: nat) in
     (9 \<le> n \<and> n \<le> 13) \<or> (28 \<le> n \<and> n \<le> 32) \<or> n = 133 \<or> n = 160)"

definition is_word_char :: "char \<Rightarrow> bool" where
  "is_word_char c = (let n = (of_char c :: nat) in
     (48 \<le> n \<and> n \<le> 57) \<or> (65 \<le> n \<and> n \<le> 90) \<or> n = 95 \<or> (97 \<le> n \<and> n \<le> 122) \<or>
     n = 170 \<or> n = 178 \<or> n = 179 \<or> n = 181 \<or> n = 185 \<or> n = 186 \<or>
     (188 \<le> n \<and> n \<le> 190) \<or> (192 \<le> n \<and> n \<le> 214) \<or> (216 \<le> n \<and> n \<le> 246) \<or>
     (248 \<le> n \<and> n \<le> 255))"

definition lower_char :: "char \<Rightarrow> char" where
  "lower_char c = (let n = (of_char c :: nat) in
     if (65 \<le> n \<and> n \<le> 90) \<or> (192 \<le> n \<and> n \<le> 214) \<or> (216 \<le> n \<and> n \<le> 222)
     then char_of (n + 32) else c)"

definition str_lower :: "string \<Rightarrow> string" where
  "str_lower s = map lower_char s"

definition str_strip :: "string \<Rightarrow> string" where
  "str_strip s = rev (dropWhile is_space (rev (dropWhile is_space s)))"

text \<open>\<open>s.split()\<close>: the maximal runs of non-whitespace characters, in order.\<close>

fun split_acc :: "string \<Rightarrow> string \<Rightarrow> string list" where
  "split_acc cur [] = (if cur = [] then [] else [cur])"
| "split_acc cur (c # cs) =
     (if is_space c then (if cur = [] then split_acc [] cs else cur # split_acc [] cs)
      else split_acc (cur @ [c]) cs)"

definition str_split :: "string \<Rightarrow> string list" where
  "str_split s = split_acc [] s"

text \<open>\<open>' '.join(tokens)\<close>\<close>

fun join_space :: "string list \<Rightarrow> string" where
  "join_space [] = []"
| "join_space [t] = t"
| "join_space (t # ts) = t @ CHR '' '' # join_space ts"

section \<open>Whole-word substitution\<close>

text \<open>
  Every pattern handed to \<open>re.sub\<close> by the normalizer has the shape
  \<open>\b(l1|l2|...|ln)\b\<close> with literal, non-empty alternatives (an escaped dot is the
  literal dot). \<open>re_sub alts repl prev text\<close> is \<open>re.sub\<close> for such a pattern: it scans
  left to right, \<open>prev\<close> is the character before the current position (\<open>None\<close> at the
  start of the string), the alternatives are tried in order, a match is replaced by
  \<open>repl\<close> and scanning resumes after the match.
\<close>

definition prev_is_word :: "char option \<Rightarrow> bool" where
  "prev_is_word p = (case p of None \<Rightarrow> False | Some c \<Rightarrow> is_word_char c)"

definition next_is_word :: "string \<Rightarrow> bool" where
  "next_is_word s = (case s of [] \<Rightarrow> False | c # _ \<Rightarrow> is_word_char c)"

definition word_boundary :: "char option \<Rightarrow> string \<Rightarrow> bool" where
  "word_boundary p s = (prev_is_word p \<noteq> next_is_word s)"

definition alt_matches :: "string \<Rightarrow> string \<Rightarrow> bool" where
  "alt_matches text a =
     (a \<noteq> [] \<and> prefix a text \<and> word_boundary (Some (last a)) (drop (length a) text))"

definition match_at :: "string list \<Rightarrow> char option \<Rightarrow> string \<Rightarrow> string option" where
  "match_at alts p text =
     (if word_boundary p text then find (alt_matches text) alts else None)"

function re_sub :: "string list \<Rightarrow> string \<Rightarrow> char option \<Rightarrow> string \<Rightarrow> string" where
  "re_sub alts repl p [] = []"
| "re_sub alts repl p (c # cs) =
     (case match_at alts p (c # cs) of
        None \<Rightarrow> c # re_sub alts repl (Some c) cs
      | Some a \<Rightarrow>
          (if a = [] then c # re_sub alts repl (Some c) cs
           else repl @ re_sub alts repl (Some (last a)) (drop (length a) (c # cs))))"
  by pat_completeness auto
termination
  by (relation "measure (\<lambda>(alts, repl, p, text). length text)") auto

section \<open>Normalizer\<close>

definition city_abbrev :: "(string \<times> string) list" where
  "city_abbrev =
    [(''la'', ''los angeles''), (''n.y.'', ''new york''), (''ny'', ''new york''),
     (''s.f.'', ''san francisco''), (''sf'', ''san francisco''),
     (''d.c.'', ''washington''), (''dc'', ''washington''), (''l.a.'', ''los angeles''),
     (''chi'', ''chicago''), (''phila'', ''philadelphia''),
     (''n.o.'', ''new orleans''), (''no'', ''new orleans''),
     (''s.a.'', ''san antonio''), (''sa'', ''san antonio''), (''utd'', ''united''),
     (''fc'', ''''), (''sc'', ''''), (''ac'', ''''), (''bc'', ''''),
     (''ht'', ''heat''), (''mn'', ''minnesota''), (''man.'', ''manchester'')]"

definition patterns_to_remove :: "string list list" where
  "patterns_to_remove =
    [[''fc'', ''cf'', ''sc'', ''ac'', ''bc'', ''fk'', ''kk'', ''club'', ''team'',
      ''basketball'', ''football''],
     [''real'', ''de'', ''del'', ''la'', ''le'', ''the'', ''of'', ''and'', ''&'']]"

definition expand_abbrev :: "string \<Rightarrow> string" where
  "expand_abbrev text = fold (\<lambda>(abbrev, expansion) t. re_sub [abbrev] expansion None t) city_abbrev text"

definition remove_patterns :: "string \<Rightarrow> string" where
  "remove_patterns text = fold (\<lambda>alts t. re_sub alts [] None t) patterns_to_remove text"

text \<open>\<open>re.sub(r'[^\w\s]', ' ', text)\<close>\<close>

definition replace_special :: "string \<Rightarrow> string" where
  "replace_special text = map (\<lambda>c. if is_word_char c \<or> is_space c then c else CHR '' '') text"

text \<open>\<open>re.sub(r'\s+', ' ', text)\<close>: every maximal run of whitespace becomes one space.\<close>

fun collapse_run :: "bool \<Rightarrow> string \<Rightarrow> string" where
  "collapse_run in_run [] = []"
| "collapse_run in_run (c # cs) =
     (if is_space c then (if in_run then collapse_run True cs else CHR '' '' # collapse_run True cs)
      else c # collapse_run False cs)"

definition collapse_space :: "string \<Rightarrow> string" where
  "collapse_space text = collapse_run False text"

definition normalize_text :: "string \<Rightarrow> string" where
  "normalize_text text =
     (if text = [] then []
      else str_strip (collapse_space (replace_special (remove_patterns
             (expand_abbrev (str_strip (str_lower text)))))))"

section \<open>Similarity metrics\<close>

subsection \<open>Edit distance\<close>

text \<open>
  The source fills a matrix row by row. \<open>lev_row c s2 prev left\<close> computes the cells of
  row \<open>i\<close> to the right of the current column: \<open>c\<close> is \<open>s1[i-1]\<close>, \<open>prev\<close> is the rest of
  row \<open>i-1\<close> starting at the diagonal cell, and \<open>left\<close> is the cell just computed.
\<close>

fun lev_row :: "char \<Rightarrow> string \<Rightarrow> nat list \<Rightarrow> nat \<Rightarrow> nat list" where
  "lev_row c (d # ds) (diag # up # prev) left =
     (let cost = (if c = d then 0 else 1);
          v = min (min (up + 1) (left + 1)) (diag + cost)
      in v # lev_row c ds (up # prev) v)"
| "lev_row c _ _ left = []"

fun lev_rows :: "string \<Rightarrow> string \<Rightarrow> nat list \<Rightarrow> nat \<Rightarrow> nat list" where
  "lev_rows [] s2 row i = row"
| "lev_rows (c # cs) s2 row i = lev_rows cs s2 (Suc i # lev_row c s2 row (Suc i)) (Suc i)"

definition levenshtein_distance :: "string \<Rightarrow> string \<Rightarrow> nat" where
  "levenshtein_distance s1 s2 =
     (if s1 = [] then length s2
      else if s2 = [] then length s1
      else last (lev_rows s1 s2 [0 ..< length s2 + 1] 0))"

definition levenshtein_ratio :: "string \<Rightarrow> string \<Rightarrow> real" where
  "levenshtein_ratio s1 s2 =
     (let max_len = max (length s1) (length s2)
      in if max_len = 0 then 1
         else 1 - real (levenshtein_distance s1 s2) / real max_len)"

subsection \<open>Jaro similarity\<close>

datatype error = IndexError | AttributeError | TypeError

text \<open>
  One iteration of the matching loop for index \<open>i\<close>: the first \<open>j\<close> of the window that is
  still unmatched and carries the same character is marked together with \<open>i\<close>.
\<close>

definition jaro_match_step ::
  "string \<Rightarrow> string \<Rightarrow> nat \<Rightarrow> nat \<Rightarrow> bool list \<times> bool list \<times> nat \<Rightarrow> bool list \<times> bool list \<times> nat" where
  "jaro_match_step s1 s2 match_window i st =
     (case st of (s1_matches, s2_matches, matches) \<Rightarrow>
        let start = i - match_window;
            end = min (i + match_window + 1) (length s2)
        in case find (\<lambda>j. \<not> (s2_matches ! j \<or> s1 ! i \<noteq> s2 ! j)) [start ..< end] of
             None \<Rightarrow> (s1_matches, s2_matches, matches)
           | Some j \<Rightarrow> (s1_matches[i := True], s2_matches[j := True], matches + 1))"

text \<open>\<open>while not s2_matches[k]: k += 1\<close>; reading past the end raises \<open>IndexError\<close>.\<close>

function skip_unmatched :: "bool list \<Rightarrow> nat \<Rightarrow> error + nat" where
  "skip_unmatched s2_matches k =
     (if length s2_matches \<le> k then Inl IndexError
      else if \<not> s2_matches ! k then skip_unmatched s2_matches (Suc k)
      else Inr k)"
  by pat_completeness auto
termination
  by (relation "measure (\<lambda>(s2_matches, k). length s2_matches - k)") auto

declare skip_unmatched.simps [simp del]

fun count_transpositions ::
  "string \<Rightarrow> string \<Rightarrow> bool list \<Rightarrow> bool list \<Rightarrow> nat list \<Rightarrow> nat \<Rightarrow> nat \<Rightarrow> error + nat" where
  "count_transpositions s1 s2 s1_matches s2_matches [] k transpositions = Inr transpositions"
| "count_transpositions s1 s2 s1_matches s2_matches (i # is) k transpositions =
     (if \<not> s1_matches ! i then count_transpositions s1 s2 s1_matches s2_matches is k transpositions
      else case skip_unmatched s2_matches k of
             Inl e \<Rightarrow> Inl e
           | Inr k' \<Rightarrow>
               count_transpositions s1 s2 s1_matches s2_matches is (Suc k')
                 (if s1 ! i \<noteq> s2 ! k' then Suc transpositions else transpositions))"

definition jaro_similarity :: "string \<Rightarrow> string \<Rightarrow> error + real" where
  "jaro_similarity s1 s2 =
     (if s1 = [] \<or> s2 = [] then Inr 0
      else if s1 = s2 then Inr 1
      else
        let len1 = length s1; len2 = length s2;
            match_window = max len1 len2 div 2 - 1;
            (s1_matches, s2_matches, matches) =
               fold (jaro_match_step s1 s2 match_window) [0 ..< len1]
                    (replicate len1 False, replicate len2 False, 0)
        in if matches = 0 then Inr 0
           else case count_transpositions s1 s2 s1_matches s2_matches [0 ..< len1] 0 0 of
                  Inl e \<Rightarrow> Inl e
                | Inr transpositions \<Rightarrow>
                    Inr ((real matches / real len1 + real matches / real len2 +
                          (real matches - real transpositions / 2) / real matches) / 3))"

subsection \<open>Character n-gram Jaccard\<close>

definition get_ngrams :: "string \<Rightarrow> nat \<Rightarrow> string set" where
  "get_ngrams text n =
     (if length text < n then {text}
      else set (map (\<lambda>i. take n (drop i text)) [0 ..< length text - n + 1]))"

definition jaccard_similarity :: "string \<Rightarrow> string \<Rightarrow> nat \<Rightarrow> real" where
  "jaccard_similarity s1 s2 n =
     (let ngrams1 = get_ngrams s1 n; ngrams2 = get_ngrams s2 n
      in if ngrams1 = {} \<and> ngrams2 = {} then 1
         else if ngrams1 = {} \<or> ngrams2 = {} then 0
         else let intersection = card (ngrams1 \<inter> ngrams2);
                  union = card (ngrams1 \<union> ngrams2)
              in if union > 0 then real intersection / real union else 0)"

subsection \<open>Token ratios\<close>

definition token_sort_ratio :: "string \<Rightarrow> string \<Rightarrow> real" where
  "token_sort_ratio s1 s2 =
     (let tokens1 = sort (str_split s1); tokens2 = sort (str_split s2)
      in levenshtein_ratio (join_space tokens1) (join_space tokens2))"

definition token_set_ratio :: "string \<Rightarrow> string \<Rightarrow> real" where
  "token_set_ratio s1 s2 =
     (let tokens1 = set (str_split s1); tokens2 = set (str_split s2)
      in if tokens1 = {} \<and> tokens2 = {} then 1
         else
           let sorted_inter = join_space (sorted_list_of_set (tokens1 \<inter> tokens2));
               sorted_1 = join_space (sorted_list_of_set tokens1);
               sorted_2 = join_space (sorted_list_of_set tokens2)
           in max (max (levenshtein_ratio sorted_inter sorted_1)
                       (levenshtein_ratio sorted_inter sorted_2))
                  (levenshtein_ratio sorted_1 sorted_2))"

subsection \<open>Reference sequence-matching ratio\<close>

text \<open>
  \<open>difflib.SequenceMatcher(None, a, b).ratio()\<close> of the Python standard library, following
  its reference implementation. No junk predicate is given, so the junk set is empty and
  only the automatic heuristic applies: when \<open>b\<close> has 200 or more elements, an element
  occurring more than \<open>len(b) // 100 + 1\<close> times is popular and cannot start or continue
  a block in the table phase (it can still be absorbed when a block is extended).
  The dictionary \<open>j2len\<close> is represented by the list of its values at \<open>0 .. len(b)-1\<close>,
  with 0 for an absent key.
\<close>

definition popular_elements :: "string \<Rightarrow> char set" where
  "popular_elements b =
     (if 200 \<le> length b then set (filter (\<lambda>c. length b div 100 + 1 < count_list b c) b) else {})"

definition flm_newj2len ::
  "string \<Rightarrow> string \<Rightarrow> char set \<Rightarrow> nat \<Rightarrow> nat \<Rightarrow> nat \<Rightarrow> nat list \<Rightarrow> nat list" where
  "flm_newj2len a b popular blo bhi i j2len =
     map (\<lambda>j. if blo \<le> j \<and> j < bhi \<and> b ! j = a ! i \<and> b ! j \<notin> popular
              then (if j = 0 then 0 else j2len ! (j - 1)) + 1 else 0)
         [0 ..< length b]"

definition flm_update :: "nat \<Rightarrow> nat list \<Rightarrow> nat \<Rightarrow> nat \<times> nat \<times> nat \<Rightarrow> nat \<times> nat \<times> nat" where
  "flm_update i newj2len j best =
     (case best of (besti, bestj, bestsize) \<Rightarrow>
        let k = newj2len ! j
        in if k > bestsize then (i + 1 - k, j + 1 - k, k) else (besti, bestj, bestsize))"

fun flm_rows ::
  "string \<Rightarrow> string \<Rightarrow> char set \<Rightarrow> nat \<Rightarrow> nat \<Rightarrow> nat list \<Rightarrow> nat list \<Rightarrow> nat \<times> nat \<times> nat \<Rightarrow> nat \<times> nat \<times> nat" where
  "flm_rows a b popular blo bhi [] j2len best = best"
| "flm_rows a b popular blo bhi (i # is) j2len best =
     (let newj2len = flm_newj2len a b popular blo bhi i j2len
      in flm_rows a b popular blo bhi is newj2len
           (fold (flm_update i newj2len) [0 ..< length b] best))"

function extend_left :: "string \<Rightarrow> string \<Rightarrow> nat \<Rightarrow> nat \<Rightarrow> nat \<times> nat \<times> nat \<Rightarrow> nat \<times> nat \<times> nat" where
  "extend_left a b alo blo (besti, bestj, bestsize) =
     (if besti > alo \<and> bestj > blo \<and> a ! (besti - 1) = b ! (bestj - 1)
      then extend_left a b alo blo (besti - 1, bestj - 1, bestsize + 1)
      else (besti, bestj, bestsize))"
  by pat_completeness auto
termination
  by (relation "measure (\<lambda>(a, b, alo, blo, besti, bestj, bestsize). besti)") auto

declare extend_left.simps [simp del]

function extend_right :: "string \<Rightarrow> string \<Rightarrow> nat \<Rightarrow> nat \<Rightarrow> nat \<times> nat \<times> nat \<Rightarrow> nat \<times> nat \<times> nat" where
  "extend_right a b ahi bhi (besti, bestj, bestsize) =
     (if besti + bestsize < ahi \<and> bestj + bestsize < bhi \<and>
         a ! (besti + bestsize) = b ! (bestj + bestsize)
      then extend_right a b ahi bhi (besti, bestj, bestsize + 1)
      else (besti, bestj, bestsize))"
  by pat_completeness auto
termination
  by (relation "measure (\<lambda>(a, b, ahi, bhi, besti, bestj, bestsize). ahi - (besti + bestsize))") auto

declare extend_right.simps [simp del]

definition find_longest_match ::
  "string \<Rightarrow> string \<Rightarrow> char set \<Rightarrow> nat \<Rightarrow> nat \<Rightarrow> nat \<Rightarrow> nat \<Rightarrow> nat \<times> nat \<times> nat" where
  "find_longest_match a b popular alo ahi blo bhi =
     extend_right a b ahi bhi
       (extend_left a b alo blo
          (flm_rows a b popular blo bhi [alo ..< ahi] (replicate (length b) 0) (alo, blo, 0)))"

text \<open>
  The total size of the blocks collected by \<open>get_matching_blocks\<close>: the longest block of
  the current window, then the windows to its left and to its right. The source keeps the
  pending windows in a queue; the sum does not depend on the order in which they are taken.
\<close>

definition flm_inv :: "nat \<Rightarrow> nat \<Rightarrow> nat \<times> nat \<times> nat \<Rightarrow> bool" where
  "flm_inv alo ahi best =
     (case best of (besti, bestj, bestsize) \<Rightarrow>
        (bestsize = 0 \<and> besti = alo) \<or> (alo \<le> besti \<and> besti + bestsize \<le> ahi))"

function matching_blocks_size ::
  "string \<Rightarrow> string \<Rightarrow> char set \<Rightarrow> nat \<Rightarrow> nat \<Rightarrow> nat \<Rightarrow> nat \<Rightarrow> nat" where
  "matching_blocks_size a b popular alo ahi blo bhi =
     (case find_longest_match a b popular alo ahi blo bhi of (i, j, k) \<Rightarrow>
        if k = 0 then 0
        else k + (if alo < i \<and> blo < j then matching_blocks_size a b popular alo i blo j else 0)
               + (if i + k < ahi \<and> j + k < bhi
                  then matching_blocks_size a b popular (i + k) ahi (j + k) bhi else 0))"
  by pat_completeness auto
termination
proof -
  have update_inv: "flm_inv alo ahi (fold (flm_update i new) js best)"
    if "flm_inv alo ahi best" "alo \<le> i" "i < ahi" "\<forall>x \<in> set new. x \<le> i + 1 - alo"
       "set js \<subseteq> {0 ..< length new}"
    for alo ahi i new js best
    using that(5,1)
  proof (induction js arbitrary: best)
    case Nil
    then show ?case by simp
  next
    case (Cons j js)
    have "new ! j \<le> i + 1 - alo"
      using Cons.prems(1) that(4) by auto
    then have "flm_inv alo ahi (flm_update i new j best)"
      using Cons.prems(2) that(2,3)
      by (auto simp: flm_update_def flm_inv_def Let_def split: prod.splits)
    then show ?case
      using Cons by simp
  qed
  have rows_inv: "flm_inv alo ahi (flm_rows a b popular blo bhi is j2len best)"
    if "flm_inv alo ahi best" "alo \<le> i0" "length j2len = length b"
       "\<forall>x \<in> set j2len. x \<le> i0 - alo" "is = [i0 ..< ahi]"
    for alo ahi a b popular blo bhi "is" j2len best i0
    using that
  proof (induction "is" arbitrary: i0 j2len best)
    case Nil
    then show ?case by simp
  next
    case (Cons i "is")
    from Cons.prems(5)[symmetric] have i: "i = i0" "i0 < ahi" "is = [Suc i0 ..< ahi]"
      by (auto simp: upt_eq_Cons_conv)
    let ?new = "flm_newj2len a b popular blo bhi i j2len"
    have len: "length ?new = length b"
      by (simp add: flm_newj2len_def)
    have bound: "\<forall>x \<in> set ?new. x \<le> i + 1 - alo"
      using Cons.prems(2,3,4) i(1) by (auto simp: flm_newj2len_def Suc_diff_le)
    have "flm_inv alo ahi (fold (flm_update i ?new) [0 ..< length b] best)"
      by (rule update_inv[OF Cons.prems(1) _ _ bound]) (use Cons.prems(2) i len in auto)
    moreover have "\<forall>x \<in> set ?new. x \<le> Suc i0 - alo"
      using bound i(1) by simp
    ultimately show ?case
      using Cons.IH[of _ "Suc i0" ?new] len i Cons.prems(2) by (simp add: Let_def)
  qed
  have left_inv: "flm_inv alo ahi (extend_left a b alo blo best)"
    if "flm_inv alo ahi best" for alo ahi a b blo best
    using that
  proof (induction a b alo blo best rule: extend_left.induct)
    case (1 a b alo blo besti bestj bestsize)
    show ?case
    proof (cases "besti > alo \<and> bestj > blo \<and> a ! (besti - 1) = b ! (bestj - 1)")
      case True
      then have "flm_inv alo ahi (besti - 1, bestj - 1, bestsize + 1)"
        using 1(2) by (auto simp: flm_inv_def)
      then show ?thesis
        using 1(1) True by (subst extend_left.simps) simp
    next
      case False
      then show ?thesis
        using 1(2) by (subst extend_left.simps) auto
    qed
  qed
  have right_inv: "flm_inv alo ahi (extend_right a b ahi bhi best)"
    if "flm_inv alo ahi best" for alo ahi a b bhi best
    using that
  proof (induction a b ahi bhi best rule: extend_right.induct)
    case (1 a b ahi bhi besti bestj bestsize)
    show ?case
    proof (cases "besti + bestsize < ahi \<and> bestj + bestsize < bhi \<and>
                  a ! (besti + bestsize) = b ! (bestj + bestsize)")
      case True
      then have "flm_inv alo ahi (besti, bestj, bestsize + 1)"
        using 1(2) by (auto simp: flm_inv_def)
      then show ?thesis
        using 1(1) True by (subst extend_right.simps) simp
    next
      case False
      then show ?thesis
        using 1(2) by (subst extend_right.simps) auto
    qed
  qed
  have bounds: "alo \<le> i \<and> i + k \<le> ahi"
    if "(i, j, k) = find_longest_match a b popular alo ahi blo bhi" "k \<noteq> 0"
    for a b popular alo ahi blo bhi i j k
  proof -
    have "flm_inv alo ahi (alo, blo, 0)"
      by (simp add: flm_inv_def)
    then have "flm_inv alo ahi
        (flm_rows a b popular blo bhi [alo ..< ahi] (replicate (length b) 0) (alo, blo, 0))"
      by (rule rows_inv) auto
    then have "flm_inv alo ahi (find_longest_match a b popular alo ahi blo bhi)"
      unfolding find_longest_match_def by (intro right_inv left_inv)
    then show ?thesis
      using that by (auto simp: flm_inv_def split: prod.splits)
  qed
  show ?thesis
    apply (relation "measure (\<lambda>(a, b, popular, alo, ahi, blo, bhi). ahi - alo)")
      apply simp
    subgoal for a b popular alo ahi blo bhi i y j k
      using bounds[of i j k a b popular alo ahi blo bhi] by auto
    subgoal for a b popular alo ahi blo bhi i y j k
      using bounds[of i j k a b popular alo ahi blo bhi] by auto
    done
qed

declare matching_blocks_size.simps [simp del]

definition sequence_matcher_ratio :: "string \<Rightarrow> string \<Rightarrow> real" where
  "sequence_matcher_ratio a b =
     (let matches = matching_blocks_size a b (popular_elements b) 0 (length a) 0 (length b);
          len = length a + length b
      in if len \<noteq> 0 then 2 * real matches / real len else 1)"

section \<open>Score combiner and candidate selector\<close>

record fuzzy_matcher =
  m_threshold :: real

definition calculate_similarity :: "string \<Rightarrow> string \<Rightarrow> error + real" where
  "calculate_similarity s1 s2 =
     (if s1 = [] \<or> s2 = [] then Inr 0
      else if s1 = s2 then Inr 1
      else
        let norm1 = normalize_text s1; norm2 = normalize_text s2
        in if norm1 = norm2 then Inr 1
           else
             let lev_score = levenshtein_ratio norm1 norm2
             in case jaro_similarity norm1 norm2 of
                  Inl e \<Rightarrow> Inl e
                | Inr jaro_score \<Rightarrow>
                    let jaccard_score = jaccard_similarity norm1 norm2 2;
                        token_sort_score = token_sort_ratio norm1 norm2;
                        token_set_score = token_set_ratio norm1 norm2;
                        difflib_score = sequence_matcher_ratio norm1 norm2;
                        weighted_score =
                          lev_score * (20 / 100) + jaro_score * (10 / 100) +
                          jaccard_score * (10 / 100) + token_sort_score * (30 / 100) +
                          token_set_score * (25 / 100) + difflib_score * (5 / 100)
                    in Inr (min 1 (max 0 weighted_score)))"

fun best_match_loop ::
  "real \<Rightarrow> string \<Rightarrow> string list \<Rightarrow> string option \<times> real \<Rightarrow> error + (string option \<times> real)" where
  "best_match_loop th query [] best = Inr best"
| "best_match_loop th query (candidate # candidates) (best_match, best_score) =
     (case calculate_similarity query candidate of
        Inl e \<Rightarrow> Inl e
      | Inr score \<Rightarrow>
          if score > best_score \<and> score \<ge> th
          then best_match_loop th query candidates (Some candidate, score)
          else best_match_loop th query candidates (best_match, best_score))"

definition find_best_match ::
  "fuzzy_matcher \<Rightarrow> string \<Rightarrow> string list \<Rightarrow> error + (string \<times> real) option" where
  "find_best_match self query candidates =
     (if query = [] \<or> candidates = [] then Inr None
      else case best_match_loop (m_threshold self) query candidates (None, 0) of
             Inl e \<Rightarrow> Inl e
           | Inr (best_match, best_score) \<Rightarrow>
               (case best_match of
                  None \<Rightarrow> Inr None
                | Some m \<Rightarrow> if m \<noteq> [] then Inr (Some (m, best_score)) else Inr None))"

section \<open>Registry and standardization policy\<close>

text \<open>
  A registry entry is a dictionary read with \<open>team.get('sport', '')\<close> and
  \<open>team.get('canonical_team_name', '')\<close>; a missing key is represented by the empty
  string. The cache \<open>_sport_teams_cache\<close> is a dictionary in insertion order, modelled as
  an association list with distinct keys.
\<close>

record team =
  sport :: string
  canonical_team_name :: string

record standardizer =
  teams_map :: "team list"
  threshold :: real
  auto_add_threshold :: real
  cloud_storage_bucket :: "string option"
  matcher :: fuzzy_matcher
  sport_teams_cache :: "(string \<times> string list) list"
  new_teams_added :: "team list"

text \<open>
  \<open>if sport not in cache: cache[sport] = []\<close> followed by \<open>cache[sport].append(name)\<close>.
\<close>

definition cache_append ::
  "string \<Rightarrow> string \<Rightarrow> (string \<times> string list) list \<Rightarrow> (string \<times> string list) list" where
  "cache_append sp name cache =
     AList.update sp ((case map_of cache sp of None \<Rightarrow> [] | Some names \<Rightarrow> names) @ [name]) cache"

definition build_cache :: "team list \<Rightarrow> (string \<times> string list) list" where
  "build_cache teams =
     fold (\<lambda>t cache.
             let sp = str_lower (sport t); canonical_name = canonical_team_name t
             in if sp \<noteq> [] \<and> canonical_name \<noteq> [] then cache_append sp canonical_name cache
                else cache)
          teams []"

definition standardizer_init :: "team list \<Rightarrow> real \<Rightarrow> real \<Rightarrow> string option \<Rightarrow> standardizer" where
  "standardizer_init teams_data th auto_add_th bucket =
     \<lparr>teams_map = teams_data, threshold = th, auto_add_threshold = auto_add_th,
      cloud_storage_bucket = bucket, matcher = \<lparr>m_threshold = th\<rparr>,
      sport_teams_cache = build_cache teams_data, new_teams_added = []\<rparr>"

text \<open>
  The decision record returned with \<open>return_details=True\<close>; the plain call returns the
  name alone, which is the first component of the result below.
\<close>

datatype details =
    Empty_name
  | Exact_match real
  | Fuzzy_match real string
  | Auto_added real "string option"
  | No_match_no_add real "string option" real

fun status :: "details \<Rightarrow> string" where
  "status Empty_name = ''empty''"
| "status (Exact_match score) = ''exact_match''"
| "status (Fuzzy_match score matched_name) = ''fuzzy_match''"
| "status (Auto_added best_existing_score best_existing_team) = ''auto_added''"
| "status (No_match_no_add best_existing_score best_existing_team auto_th) = ''no_match_no_add''"

text \<open>The loop that looks for the best existing score without a lower cutoff.\<close>

fun best_existing ::
  "string \<Rightarrow> string list \<Rightarrow> real \<times> string option \<Rightarrow> error + (real \<times> string option)" where
  "best_existing team_name [] best = Inr best"
| "best_existing team_name (candidate # candidates) (best_score, best_candidate) =
     (case calculate_similarity team_name candidate of
        Inl e \<Rightarrow> Inl e
      | Inr score \<Rightarrow>
          if score > best_score
          then best_existing team_name candidates (score, Some candidate)
          else best_existing team_name candidates (best_score, best_candidate))"

definition exact_lookup :: "(string \<times> string list) list \<Rightarrow> string \<Rightarrow> string \<Rightarrow> string option" where
  "exact_lookup cache sp team_name =
     (case map_of cache sp of
        None \<Rightarrow> None
      | Some names \<Rightarrow> find (\<lambda>canonical_name. str_lower canonical_name = str_lower team_name) names)"

definition no_match_decision ::
  "standardizer \<Rightarrow> string \<Rightarrow> string \<Rightarrow> bool \<Rightarrow> error + ((string \<times> details) \<times> standardizer)" where
  "no_match_decision self team_name sp auto_add =
     (case (case map_of (sport_teams_cache self) sp of
              None \<Rightarrow> Inr (0, None)
            | Some names \<Rightarrow> best_existing team_name names (0, None)) of
        Inl e \<Rightarrow> Inl e
      | Inr (best_score, best_candidate) \<Rightarrow>
          if auto_add \<and> best_score < auto_add_threshold self
          then
            let new_team = \<lparr>sport = sp, canonical_team_name = team_name\<rparr>
            in Inr ((team_name, Auto_added best_score best_candidate),
                    self\<lparr>teams_map := teams_map self @ [new_team],
                         new_teams_added := new_teams_added self @ [new_team],
                         sport_teams_cache := cache_append sp team_name (sport_teams_cache self)\<rparr>)
          else Inr ((team_name,
                     No_match_no_add best_score best_candidate (auto_add_threshold self)), self))"

definition standardize_team_name ::
  "standardizer \<Rightarrow> string \<Rightarrow> string \<Rightarrow> bool \<Rightarrow> error + ((string \<times> details) \<times> standardizer)" where
  "standardize_team_name self raw_name raw_sport auto_add =
     (if raw_name = [] \<or> str_strip raw_name = [] then Inr (([], Empty_name), self)
      else
        let team_name = str_strip raw_name; sp = str_lower raw_sport
        in case exact_lookup (sport_teams_cache self) sp team_name of
             Some canonical_name \<Rightarrow> Inr ((canonical_name, Exact_match 1), self)
           | None \<Rightarrow>
               (case (case map_of (sport_teams_cache self) sp of
                        None \<Rightarrow> Inr None
                      | Some names \<Rightarrow> find_best_match (matcher self) team_name names) of
                  Inl e \<Rightarrow> Inl e
                | Inr (Some (matched_name, score)) \<Rightarrow>
                    Inr ((matched_name, Fuzzy_match score matched_name), self)
                | Inr None \<Rightarrow> no_match_decision self team_name sp auto_add))"

section \<open>Bulk response rewriting\<close>

text \<open>
  A document is a JSON value; an object is an association list with distinct keys in
  insertion order. \<open>process_api_response\<close> first copies the document
  (\<open>json.loads(json.dumps(...))\<close>), so the walk below works on a value of its own. Writing
  the snapshot to a file (\<open>auto_save\<close>) is the persistence collaborator's effect and is
  not part of the state; the summary field it controls is.
\<close>

datatype json =
    JNull | JBool bool | JNum real | JStr string
  | JArr "json list" | JObj "(string \<times> json) list"

fun truthy :: "json \<Rightarrow> bool" where
  "truthy JNull = False"
| "truthy (JBool b) = b"
| "truthy (JNum x) = (x \<noteq> 0)"
| "truthy (JStr s) = (s \<noteq> [])"
| "truthy (JArr xs) = (xs \<noteq> [])"
| "truthy (JObj kvs) = (kvs \<noteq> [])"

definition team_fields :: "string list" where
  "team_fields = [''home_team'', ''away_team'', ''team_name'', ''team'', ''participant'']"

fun details_json :: "details \<Rightarrow> json" where
  "details_json Empty_name = JObj [(''status'', JStr ''empty'')]"
| "details_json (Exact_match score) = JObj [(''status'', JStr ''exact_match''), (''score'', JNum score)]"
| "details_json (Fuzzy_match score matched_name) =
     JObj [(''status'', JStr ''fuzzy_match''), (''score'', JNum score), (''matched_name'', JStr matched_name)]"
| "details_json (Auto_added best_score best_team) =
     JObj [(''status'', JStr ''auto_added''), (''best_existing_score'', JNum best_score),
           (''best_existing_team'', (case best_team of None \<Rightarrow> JNull | Some t \<Rightarrow> JStr t))]"
| "details_json (No_match_no_add best_score best_team auto_th) =
     JObj [(''status'', JStr ''no_match_no_add''), (''best_existing_score'', JNum best_score),
           (''best_existing_team'', (case best_team of None \<Rightarrow> JNull | Some t \<Rightarrow> JStr t)),
           (''auto_add_threshold'', JNum auto_th)]"

text \<open>A size measure for the termination of the walk: an object that carries a team field
  outweighs the diagnostic entries the walk adds to it.\<close>

fun jweight :: "json \<Rightarrow> nat" where
  "jweight (JObj kvs) =
     1 + sum_list (map (\<lambda>kv. jweight (snd kv) + 1) kvs) +
     (if list_ex (\<lambda>f. f \<in> fst ` set kvs) team_fields then 51 else 0)"
| "jweight (JArr xs) = 1 + sum_list (map (\<lambda>v. jweight v + 1) xs)"
| "jweight v = 0"


record walk =
  standardizer_of :: standardizer
  changes_made :: bool
  teams_processed :: nat

definition standardize_value ::
  "standardizer \<Rightarrow> json \<Rightarrow> json \<Rightarrow> error + ((string \<times> details) \<times> standardizer)" where
  "standardize_value self original_name sport_field =
     (case original_name of
        JStr raw_name \<Rightarrow>
          (if str_strip raw_name = [] then Inr (([], Empty_name), self)
           else case sport_field of
                  JStr raw_sport \<Rightarrow> standardize_team_name self raw_name raw_sport True
                | _ \<Rightarrow> Inl AttributeError)
      | _ \<Rightarrow> Inl AttributeError)"

definition sport_field_of :: "string option \<Rightarrow> (string \<times> json) list \<Rightarrow> json" where
  "sport_field_of sport_override obj =
     (let from_obj =
            (case map_of obj ''sport'' of
               Some v \<Rightarrow> v
             | None \<Rightarrow>
                 (case map_of obj ''sport_key'' of
                    Some v \<Rightarrow> v
                  | None \<Rightarrow>
                      (case map_of obj ''category'' of Some v \<Rightarrow> v | None \<Rightarrow> JStr ''unknown'')))
      in case sport_override of
           None \<Rightarrow> from_obj
         | Some s \<Rightarrow> if s \<noteq> [] then JStr s else from_obj)"

definition process_field ::
  "json \<Rightarrow> string \<Rightarrow> (string \<times> json) list \<times> walk \<Rightarrow> error + ((string \<times> json) list \<times> walk)" where
  "process_field sport_field field ow =
     (case ow of (obj, w) \<Rightarrow>
        (case map_of obj field of
           None \<Rightarrow> Inr (obj, w)
         | Some original_name \<Rightarrow>
             if \<not> truthy original_name then Inr (obj, w)
             else
               (case standardize_value (standardizer_of w) original_name sport_field of
                  Inl e \<Rightarrow> Inl e
                | Inr ((standardized_name, det), self') \<Rightarrow>
                    let changed = (JStr standardized_name \<noteq> original_name);
                        obj1 = (if changed then AList.update field (JStr standardized_name) obj
                                else obj);
                        obj2 = AList.update (field @ ''_standardization'')
                                 (JObj [(''original'', original_name),
                                        (''standardized'', JStr standardized_name),
                                        (''details'', details_json det)]) obj1
                    in Inr (obj2, \<lparr>standardizer_of = self',
                                   changes_made = (changes_made w \<or> changed),
                                   teams_processed = teams_processed w + 1\<rparr>))))"

fun process_fields ::
  "json \<Rightarrow> string list \<Rightarrow> (string \<times> json) list \<times> walk \<Rightarrow> error + ((string \<times> json) list \<times> walk)" where
  "process_fields sport_field [] ow = Inr ow"
| "process_fields sport_field (field # rest) ow =
     (case process_field sport_field field ow of
        Inl e \<Rightarrow> Inl e
      | Inr ow' \<Rightarrow> process_fields sport_field rest ow')"

function process_recursive :: "string option \<Rightarrow> json \<Rightarrow> walk \<Rightarrow> error + (json \<times> walk)"
  and process_items ::
    "string option \<Rightarrow> (string \<times> json) list \<Rightarrow> walk \<Rightarrow> error + ((string \<times> json) list \<times> walk)"
  and process_elements :: "string option \<Rightarrow> json list \<Rightarrow> walk \<Rightarrow> error + (json list \<times> walk)"
  where
  "process_recursive sport_override (JObj obj) w =
     (case process_fields (sport_field_of sport_override obj) team_fields (obj, w) of
        Inl e \<Rightarrow> Inl e
      | Inr (obj', w') \<Rightarrow>
          (case process_items sport_override obj' w' of
             Inl e \<Rightarrow> Inl e
           | Inr (obj'', w'') \<Rightarrow> Inr (JObj obj'', w'')))"
| "process_recursive sport_override (JArr xs) w =
     (case process_elements sport_override xs w of
        Inl e \<Rightarrow> Inl e
      | Inr (xs', w') \<Rightarrow> Inr (JArr xs', w'))"
| "process_recursive sport_override JNull w = Inr (JNull, w)"
| "process_recursive sport_override (JBool b) w = Inr (JBool b, w)"
| "process_recursive sport_override (JNum x) w = Inr (JNum x, w)"
| "process_recursive sport_override (JStr s) w = Inr (JStr s, w)"
| "process_items sport_override [] w = Inr ([], w)"
| "process_items sport_override ((key, v) # kvs) w =
     (case process_recursive sport_override v w of
        Inl e \<Rightarrow> Inl e
      | Inr (v', w') \<Rightarrow>
          (case process_items sport_override kvs w' of
             Inl e \<Rightarrow> Inl e
           | Inr (kvs', w'') \<Rightarrow> Inr ((key, v') # kvs', w'')))"
| "process_elements sport_override [] w = Inr ([], w)"
| "process_elements sport_override (x # xs) w =
     (case process_recursive sport_override x w of
        Inl e \<Rightarrow> Inl e
      | Inr (x', w') \<Rightarrow>
          (case process_elements sport_override xs w' of
             Inl e \<Rightarrow> Inl e
           | Inr (xs', w'') \<Rightarrow> Inr (x' # xs', w'')))"
  by pat_completeness auto
termination
proof -
  let ?ws = "\<lambda>kvs :: (string \<times> json) list. sum_list (map (\<lambda>kv. jweight (snd kv) + 1) kvs)"
  have upd_new: "?ws (AList.update k v kvs) \<le> ?ws kvs + jweight v + 1" for k v kvs
    by (induction kvs) auto
  have upd_old: "?ws (AList.update k v kvs) + jweight old = ?ws kvs + jweight v"
    if "map_of kvs k = Some old" for k v kvs old
    using that by (induction kvs) (auto split: if_splits)
  have det_weight: "jweight (details_json det) \<le> 5" for det
    by (cases det) (auto simp: team_fields_def split: option.splits)
  have field_weight: "?ws obj' \<le> ?ws obj + 10 \<and> (field \<notin> fst ` set obj \<longrightarrow> obj' = obj)"
    if pf: "process_field sport_field field (obj, w) = Inr (obj', w')"
    for sport_field field obj w obj' w'
  proof (cases "map_of obj field")
    case None
    then show ?thesis
      using pf by (auto simp: process_field_def)
  next
    case (Some original_name)
    then have mem: "field \<in> fst ` set obj"
      by (metis domI dom_map_of_conv_image_fst)
    show ?thesis
    proof (cases "truthy original_name")
      case False
      then show ?thesis
        using pf Some by (auto simp: process_field_def)
    next
      case True
      then obtain standardized_name det self' where
        sv: "standardize_value (standardizer_of w) original_name sport_field =
               Inr ((standardized_name, det), self')"
      proof (cases "standardize_value (standardizer_of w) original_name sport_field")
        case (Inl e)
        then show ?thesis
          using pf Some True by (simp add: process_field_def)
      next
        case (Inr r)
        then show ?thesis
          using that[of "fst (fst r)" "snd (fst r)" "snd r"] by simp
      qed
      then obtain raw_name where raw: "original_name = JStr raw_name"
        by (auto simp: standardize_value_def split: json.splits)
      let ?obj1 = "if JStr standardized_name \<noteq> original_name
                   then AList.update field (JStr standardized_name) obj else obj"
      let ?meta = "JObj [(''original'', original_name), (''standardized'', JStr standardized_name),
                         (''details'', details_json det)]"
      have obj': "obj' = AList.update (field @ ''_standardization'') ?meta ?obj1"
        using pf Some True sv by (simp add: process_field_def Let_def)
      have "?ws ?obj1 = ?ws obj"
        using upd_old[OF Some, of "JStr standardized_name"] raw by auto
      moreover have "jweight ?meta \<le> 9"
        using det_weight[of det] raw by (simp add: team_fields_def)
      ultimately have "?ws obj' \<le> ?ws obj + 10"
        unfolding obj' using upd_new[of "field @ ''_standardization''" ?meta ?obj1] by linarith
      then show ?thesis
        using mem by simp
    qed
  qed
  have fields_weight:
    "?ws obj' \<le> ?ws obj + 10 * length fs \<and> ((\<forall>f \<in> set fs. f \<notin> fst ` set obj) \<longrightarrow> obj' = obj)"
    if "process_fields sport_field fs (obj, w) = Inr (obj', w')"
    for sport_field fs obj w obj' w'
    using that
  proof (induction fs arbitrary: obj w)
    case Nil
    then show ?case by simp
  next
    case (Cons f fs)
    then obtain obj1 w1 where
      step: "process_field sport_field f (obj, w) = Inr (obj1, w1)" and
      rest: "process_fields sport_field fs (obj1, w1) = Inr (obj', w')"
      by (auto split: sum.splits)
    from field_weight[OF step] Cons.IH[OF rest] show ?case
      by auto
  qed
  show ?thesis
    apply (relation "measure (\<lambda>x. case x of
            Inl (so, v, w) \<Rightarrow> jweight v
          | Inr (Inl (so, kvs, w)) \<Rightarrow> sum_list (map (\<lambda>kv. jweight (snd kv) + 1) kvs)
          | Inr (Inr (so, xs, w)) \<Rightarrow> sum_list (map (\<lambda>v. jweight v + 1) xs))")
              apply simp_all
    subgoal for sport_override obj w b x y
      using fields_weight[of "sport_field_of sport_override obj" team_fields obj w x y]
      by (auto simp: list_ex_iff team_fields_def)
    done
qed


definition team_json :: "team \<Rightarrow> json" where
  "team_json t = JObj [(''sport'', JStr (sport t)), (''canonical_team_name'', JStr (canonical_team_name t))]"

definition process_api_response ::
  "standardizer \<Rightarrow> json \<Rightarrow> bool \<Rightarrow> string option \<Rightarrow> error + (json \<times> standardizer)" where
  "process_api_response self api_response auto_save sport_override =
     (case process_recursive sport_override api_response
             \<lparr>standardizer_of = self, changes_made = False, teams_processed = 0\<rparr> of
        Inl e \<Rightarrow> Inl e
      | Inr (processed_response, w) \<Rightarrow>
          (case processed_response of
             JObj obj \<Rightarrow>
               let self' = standardizer_of w;
                   summary = JObj
                     [(''teams_processed'', JNum (real (teams_processed w))),
                      (''changes_made'', JBool (changes_made w)),
                      (''new_teams_added'', JNum (real (length (new_teams_added self')))),
                      (''auto_save_performed'',
                         (if \<not> auto_save then JBool False
                          else if changes_made w then JBool True
                          else JArr (map team_json (new_teams_added self'))))]
               in Inr (JObj (AList.update ''_processing_summary'' summary obj), self')
           | _ \<Rightarrow> Inl TypeError))"

text \<open>The registry and the document of the end-to-end bulk scenario.\<close>

definition scenario_registry :: standardizer where
  "scenario_registry =
     standardizer_init [\<lparr>sport = ''basketball'', canonical_team_name = ''Kauno Zalgiris''\<rparr>]
       (75 / 100) (70 / 100) None"

definition scenario_document :: json where
  "scenario_document =
     JObj [(''sport'', JStr ''basketball''), (''home_team'', JStr ''Zalgiris Kaunas''),
           (''away_team'', JStr ''Brand New FC'')]"

section \<open>Auxiliary notions for the proofs\<close>

text \<open>
  The invariant of the Jaro matching loop after the indices below \<open>k\<close>: the two flag
  arrays keep their lengths, each holds as many marks as matches were counted, and no
  index from \<open>k\<close> on is marked in the first one.
\<close>

definition jaro_inv :: "nat \<Rightarrow> nat \<Rightarrow> nat \<Rightarrow> bool list \<times> bool list \<times> nat \<Rightarrow> bool" where
  "jaro_inv len1 len2 k st = (case st of (s1m, s2m, m) \<Rightarrow>
     length s1m = len1 \<and> length s2m = len2 \<and> count_list s1m True = m \<and> count_list s2m True = m \<and>
     (\<forall>i. k \<le> i \<and> i < len1 \<longrightarrow> \<not> s1m ! i))"

text \<open>
  \<open>lookup(category)\<close>: the candidates the cache holds for a category (none for an unseen
  one), and the names the entry sequence itself holds for it: the non-empty canonical
  names of the entries whose lowercased sport is the category, in insertion order.
\<close>

definition candidates_of :: "(string \<times> string list) list \<Rightarrow> string \<Rightarrow> string list" where
  "candidates_of cache sp = (case map_of cache sp of None \<Rightarrow> [] | Some names \<Rightarrow> names)"

definition registry_names :: "team list \<Rightarrow> string \<Rightarrow> string list" where
  "registry_names teams sp =
     map canonical_team_name
       (filter (\<lambda>t. str_lower (sport t) = sp \<and> canonical_team_name t \<noteq> []) teams)"

text \<open>The uniqueness key of an entry, and a registry without two entries of one key.\<close>

definition entry_key :: "team \<Rightarrow> string \<times> string" where
  "entry_key t = (str_lower (sport t), str_lower (canonical_team_name t))"

definition unique_keys :: "team list \<Rightarrow> bool" where
  "unique_keys teams = distinct (map entry_key teams)"

text \<open>
  A finite sequence of \<open>standardize_team_name\<close> calls, each given as (name, sport,
  auto_add); a call that raises leaves the standardizer as it was.
\<close>

fun run_calls :: "standardizer \<Rightarrow> (string \<times> string \<times> bool) list \<Rightarrow> standardizer" where
  "run_calls self [] = self"
| "run_calls self ((raw_name, raw_sport, auto_add) # calls) =
     (case standardize_team_name self raw_name raw_sport auto_add of
        Inl e \<Rightarrow> run_calls self calls
      | Inr (result, self') \<Rightarrow> run_calls self' calls)"

section \<open>The Jaro loops return\<close>

lemma count_true_update:
  "j < length xs \<Longrightarrow> \<not> xs ! j \<Longrightarrow> count_list (xs[j := True]) True = Suc (count_list xs True)"
proof (induction xs arbitrary: j)
  case Nil then show ?case by simp
next
  case (Cons x xs) then show ?case by (cases j) auto
qed

lemma count_true_le_length: "count_list xs True \<le> length xs"
  by (induction xs) auto

lemma count_true_indices:
  "length (filter (\<lambda>i. xs ! i) [0 ..< length xs]) = count_list xs True"
proof (induction xs rule: rev_induct)
  case Nil then show ?case by simp
next
  case (snoc x xs)
  have "filter (\<lambda>i. (xs @ [x]) ! i) [0 ..< length xs] = filter (\<lambda>i. xs ! i) [0 ..< length xs]"
    by (rule filter_cong) (auto simp: nth_append)
  then show ?case using snoc by (auto simp: nth_append)
qed

lemma find_Some_set: "find P xs = Some x \<Longrightarrow> x \<in> set xs \<and> P x"
  by (induction xs) (auto split: if_splits)

lemma jaro_match_step_inv:
  assumes "jaro_inv (length s1) (length s2) k st" "k < length s1"
  shows "jaro_inv (length s1) (length s2) (Suc k) (jaro_match_step s1 s2 w k st)"
proof -
  obtain s1m s2m m where st: "st = (s1m, s2m, m)" by (cases st) auto
  show ?thesis
  proof (cases "find (\<lambda>j. \<not> (s2m ! j \<or> s1 ! k \<noteq> s2 ! j)) [k - w ..< min (k + w + 1) (length s2)]")
    case None
    then show ?thesis using assms st by (auto simp: jaro_match_step_def jaro_inv_def Let_def)
  next
    case (Some j)
    then have j: "j < length s2" "\<not> s2m ! j"
      by (auto dest!: find_Some_set)
    have "jaro_match_step s1 s2 w k st = (s1m[k := True], s2m[j := True], m + 1)"
      using Some st by (simp add: jaro_match_step_def Let_def)
    then show ?thesis
      using assms st j by (auto simp: jaro_inv_def count_true_update)
  qed
qed

lemma jaro_fold_inv:
  "k \<le> length s1 \<Longrightarrow>
   jaro_inv (length s1) (length s2) k
     (fold (jaro_match_step s1 s2 w) [0 ..< k] (replicate (length s1) False, replicate (length s2) False, 0))"
proof (induction k)
  case 0
  then show ?case by (auto simp: jaro_inv_def)
next
  case (Suc k)
  then show ?case using jaro_match_step_inv[of s1 s2 k _ w] by simp
qed

lemma skip_unmatched_ok:
  "0 < count_list (drop k s2m) True \<Longrightarrow>
   \<exists>k'. skip_unmatched s2m k = Inr k' \<and> k \<le> k' \<and> k' < length s2m \<and> s2m ! k' \<and>
        count_list (drop (Suc k') s2m) True = count_list (drop k s2m) True - 1"
proof (induction s2m k rule: skip_unmatched.induct)
  case (1 s2m k)
  have lt: "k < length s2m" using 1(2) by (cases "k < length s2m") auto
  then have d: "drop k s2m = s2m ! k # drop (Suc k) s2m" by (simp add: Cons_nth_drop_Suc)
  show ?case
  proof (cases "s2m ! k")
    case True
    then show ?thesis using lt d by (subst skip_unmatched.simps) auto
  next
    case False
    then have "0 < count_list (drop (Suc k) s2m) True" using 1(2) d by simp
    from 1(1)[OF _ False this] lt obtain k' where
      "skip_unmatched s2m (Suc k) = Inr k'" "Suc k \<le> k'" "k' < length s2m" "s2m ! k'"
      "count_list (drop (Suc k') s2m) True = count_list (drop (Suc k) s2m) True - 1"
      by auto
    then show ?thesis using lt False d by (subst skip_unmatched.simps) auto
  qed
qed

lemma count_transpositions_ok:
  "length (filter (\<lambda>i. s1m ! i) is) \<le> count_list (drop k s2m) True \<Longrightarrow>
   \<exists>t'. count_transpositions s1 s2 s1m s2m is k t = Inr t' \<and> t' \<le> t + length (filter (\<lambda>i. s1m ! i) is)"
proof (induction "is" arbitrary: k t)
  case Nil then show ?case by simp
next
  case (Cons i "is")
  show ?case
  proof (cases "s1m ! i")
    case False
    then show ?thesis using Cons by simp
  next
    case True
    then have pos: "0 < count_list (drop k s2m) True" using Cons.prems by simp
    from skip_unmatched_ok[OF pos] obtain k' where k':
      "skip_unmatched s2m k = Inr k'"
      "count_list (drop (Suc k') s2m) True = count_list (drop k s2m) True - 1" by auto
    have "length (filter (\<lambda>i. s1m ! i) is) \<le> count_list (drop (Suc k') s2m) True"
      using Cons.prems True k'(2) by simp
    from Cons.IH[OF this, of "if s1 ! i \<noteq> s2 ! k' then Suc t else t"]
    show ?thesis using True k'(1) by (auto split: if_splits)
  qed
qed

lemma jaro_similarity_total:
  "\<exists>r. jaro_similarity s1 s2 = Inr r \<and> 0 \<le> r \<and> r \<le> 1"
proof (cases "s1 = [] \<or> s2 = [] \<or> s1 = s2")
  case True
  then show ?thesis by (auto simp: jaro_similarity_def)
next
  case False
  let ?w = "max (length s1) (length s2) div 2 - 1"
  let ?st = "fold (jaro_match_step s1 s2 ?w) [0 ..< length s1]
                (replicate (length s1) False, replicate (length s2) False, 0)"
  obtain s1m s2m m where st: "?st = (s1m, s2m, m)" by (cases ?st) auto
  have inv: "jaro_inv (length s1) (length s2) (length s1) ?st"
    by (rule jaro_fold_inv) simp
  then have len: "length s1m = length s1" "length s2m = length s2"
    and cnt: "count_list s1m True = m" "count_list s2m True = m"
    using st by (auto simp: jaro_inv_def)
  have m1: "m \<le> length s1" using count_true_le_length[of s1m] len cnt by simp
  have m2: "m \<le> length s2" using count_true_le_length[of s2m] len cnt by simp
  show ?thesis
  proof (cases "m = 0")
    case True
    then show ?thesis using False st by (simp add: jaro_similarity_def Let_def)
  next
    case mpos: False
    have "length (filter (\<lambda>i. s1m ! i) [0 ..< length s1]) \<le> count_list (drop 0 s2m) True"
      using count_true_indices[of s1m] len cnt by simp
    from count_transpositions_ok[OF this, of s1 s2 0] obtain t where
      t: "count_transpositions s1 s2 s1m s2m [0 ..< length s1] 0 0 = Inr t" "t \<le> m"
      using count_true_indices[of s1m] len cnt by auto
    let ?r = "(real m / real (length s1) + real m / real (length s2) +
                          (real m - real t / 2) / real m) / 3"
    have eq: "jaro_similarity s1 s2 = Inr ?r"
      using False st mpos t(1) by (simp add: jaro_similarity_def Let_def)
    have l1: "0 < length s1" "0 < length s2" using False by auto
    have a: "0 \<le> real m / real (length s1)" "real m / real (length s1) \<le> 1"
      using m1 l1 by (auto simp: divide_le_eq)
    have b: "0 \<le> real m / real (length s2)" "real m / real (length s2) \<le> 1"
      using m2 l1 by (auto simp: divide_le_eq)
    have c: "0 \<le> (real m - real t / 2) / real m" "(real m - real t / 2) / real m \<le> 1"
      using t(2) mpos by (auto simp: divide_le_eq)
    have "0 \<le> ?r" using a(1) b(1) c(1) by simp
    moreover have "?r \<le> 1" using a(2) b(2) c(2) by simp
    ultimately show ?thesis using eq by blast
  qed
qed

section \<open>Configuration\<close>

text \<open>
  C7 (as written: a constructor call with an auto-add threshold above the matching
  threshold, or with a threshold outside the unit interval, is rejected or clamped).
  The constructor has no check: called with matching threshold 0.5 and auto-add threshold
  0.9 it returns a standardizer that holds exactly these two values.
\<close>

theorem C7_counterexample:
  "standardizer_init [] (5 / 10) (9 / 10) None =
     \<lparr>teams_map = [], threshold = 5 / 10, auto_add_threshold = 9 / 10,
      cloud_storage_bucket = None, matcher = \<lparr>m_threshold = 5 / 10\<rparr>,
      sport_teams_cache = [], new_teams_added = []\<rparr> \<and>
   (5 / 10 :: real) < 9 / 10"
  by (simp add: standardizer_init_def build_cache_def)

text \<open>
  C7 (amended): for thresholds in the unit interval the constructor accepts every pair,
  whatever their order, and stores both unchanged: the matching threshold in the
  standardizer and in its matcher, the auto-add threshold in the standardizer.
\<close>

theorem C7_constructor_stores_thresholds:
  assumes "0 \<le> th" "th \<le> 1" "0 \<le> auto_add_th" "auto_add_th \<le> 1"
  shows "threshold (standardizer_init teams_data th auto_add_th bucket) = th \<and>
         auto_add_threshold (standardizer_init teams_data th auto_add_th bucket) = auto_add_th \<and>
         m_threshold (matcher (standardizer_init teams_data th auto_add_th bucket)) = th \<and>
         teams_map (standardizer_init teams_data th auto_add_th bucket) = teams_data"
  by (simp add: standardizer_init_def)

theorem C7_witness:
  "(0::real) \<le> 5 / 10 \<and> (5 / 10 :: real) \<le> 1 \<and> (0::real) \<le> 9 / 10 \<and> (9 / 10 :: real) \<le> 1 \<and>
   (5 / 10 :: real) < 9 / 10 \<and>
   threshold (standardizer_init [] (5 / 10) (9 / 10) None) = 5 / 10 \<and>
   auto_add_threshold (standardizer_init [] (5 / 10) (9 / 10) None) = 9 / 10 \<and>
   m_threshold (matcher (standardizer_init [] (5 / 10) (9 / 10) None)) = 5 / 10"
  using C7_constructor_stores_thresholds [of "5 / 10" "9 / 10" "[]" None] by simp

section \<open>Score combiner and candidate selector: properties\<close>

lemma calculate_similarity_total:
  "\<exists>r. calculate_similarity s1 s2 = Inr r \<and> 0 \<le> r \<and> r \<le> 1"
proof -
  obtain j where j: "jaro_similarity (normalize_text s1) (normalize_text s2) = Inr j"
    using jaro_similarity_total by blast
  show ?thesis
    unfolding calculate_similarity_def Let_def using j by auto
qed

lemma calculate_similarity_empty:
  "calculate_similarity s1 [] = Inr 0" "calculate_similarity [] s2 = Inr 0"
  by (simp_all add: calculate_similarity_def)

lemma best_match_loop_result:
  "\<exists>bm' bs'. best_match_loop th q cs (bm, bs) = Inr (bm', bs') \<and>
     ((bm' = bm \<and> bs' = bs \<and>
       (\<forall>x \<in> set cs. \<forall>r. calculate_similarity q x = Inr r \<longrightarrow> \<not> (bs < r \<and> th \<le> r))) \<or>
      (\<exists>pre c post. cs = pre @ c # post \<and> bm' = Some c \<and>
         calculate_similarity q c = Inr bs' \<and> th \<le> bs' \<and> bs < bs' \<and>
         (\<forall>x \<in> set pre. \<forall>r. calculate_similarity q x = Inr r \<longrightarrow> r < bs') \<and>
         (\<forall>x \<in> set post. \<forall>r. calculate_similarity q x = Inr r \<longrightarrow> r \<le> bs')))"
proof (induction cs arbitrary: bm bs)
  case Nil
  then show ?case by simp
next
  case (Cons c cs)
  obtain r where r: "calculate_similarity q c = Inr r"
    using calculate_similarity_total by blast
  show ?case
  proof (cases "bs < r \<and> th \<le> r")
    case True
    from Cons.IH[of "Some c" r] obtain bm' bs' where
      res: "best_match_loop th q cs (Some c, r) = Inr (bm', bs')" and
      alt: "(bm' = Some c \<and> bs' = r \<and>
             (\<forall>x \<in> set cs. \<forall>r'. calculate_similarity q x = Inr r' \<longrightarrow> \<not> (r < r' \<and> th \<le> r'))) \<or>
            (\<exists>pre c' post. cs = pre @ c' # post \<and> bm' = Some c' \<and>
               calculate_similarity q c' = Inr bs' \<and> th \<le> bs' \<and> r < bs' \<and>
               (\<forall>x \<in> set pre. \<forall>r'. calculate_similarity q x = Inr r' \<longrightarrow> r' < bs') \<and>
               (\<forall>x \<in> set post. \<forall>r'. calculate_similarity q x = Inr r' \<longrightarrow> r' \<le> bs'))"
      by blast
    have eq: "best_match_loop th q (c # cs) (bm, bs) = Inr (bm', bs')"
      using r True res by simp
    from alt show ?thesis
    proof
      assume a: "bm' = Some c \<and> bs' = r \<and>
             (\<forall>x \<in> set cs. \<forall>r'. calculate_similarity q x = Inr r' \<longrightarrow> \<not> (r < r' \<and> th \<le> r'))"
      have "\<forall>x \<in> set cs. \<forall>r'. calculate_similarity q x = Inr r' \<longrightarrow> r' \<le> bs'"
        using a True by force
      then have "c # cs = [] @ c # cs \<and> bm' = Some c \<and>
         calculate_similarity q c = Inr bs' \<and> th \<le> bs' \<and> bs < bs' \<and>
         (\<forall>x \<in> set []. \<forall>r. calculate_similarity q x = Inr r \<longrightarrow> r < bs') \<and>
         (\<forall>x \<in> set cs. \<forall>r. calculate_similarity q x = Inr r \<longrightarrow> r \<le> bs')"
        using a r True by simp
      then show ?thesis using eq by blast
    next
      assume "\<exists>pre c' post. cs = pre @ c' # post \<and> bm' = Some c' \<and>
               calculate_similarity q c' = Inr bs' \<and> th \<le> bs' \<and> r < bs' \<and>
               (\<forall>x \<in> set pre. \<forall>r'. calculate_similarity q x = Inr r' \<longrightarrow> r' < bs') \<and>
               (\<forall>x \<in> set post. \<forall>r'. calculate_similarity q x = Inr r' \<longrightarrow> r' \<le> bs')"
      then obtain pre c' post where p: "cs = pre @ c' # post" "bm' = Some c'"
               "calculate_similarity q c' = Inr bs'" "th \<le> bs'" "r < bs'"
               "\<forall>x \<in> set pre. \<forall>r'. calculate_similarity q x = Inr r' \<longrightarrow> r' < bs'"
               "\<forall>x \<in> set post. \<forall>r'. calculate_similarity q x = Inr r' \<longrightarrow> r' \<le> bs'"
        by blast
      have "c # cs = (c # pre) @ c' # post \<and> bm' = Some c' \<and>
         calculate_similarity q c' = Inr bs' \<and> th \<le> bs' \<and> bs < bs' \<and>
         (\<forall>x \<in> set (c # pre). \<forall>r. calculate_similarity q x = Inr r \<longrightarrow> r < bs') \<and>
         (\<forall>x \<in> set post. \<forall>r. calculate_similarity q x = Inr r \<longrightarrow> r \<le> bs')"
        using p r True by auto
      then show ?thesis using eq by blast
    qed
  next
    case False
    from Cons.IH[of bm bs] obtain bm' bs' where
      res: "best_match_loop th q cs (bm, bs) = Inr (bm', bs')" and
      alt: "(bm' = bm \<and> bs' = bs \<and>
             (\<forall>x \<in> set cs. \<forall>r'. calculate_similarity q x = Inr r' \<longrightarrow> \<not> (bs < r' \<and> th \<le> r'))) \<or>
            (\<exists>pre c' post. cs = pre @ c' # post \<and> bm' = Some c' \<and>
               calculate_similarity q c' = Inr bs' \<and> th \<le> bs' \<and> bs < bs' \<and>
               (\<forall>x \<in> set pre. \<forall>r'. calculate_similarity q x = Inr r' \<longrightarrow> r' < bs') \<and>
               (\<forall>x \<in> set post. \<forall>r'. calculate_similarity q x = Inr r' \<longrightarrow> r' \<le> bs'))"
      by blast
    have eq: "best_match_loop th q (c # cs) (bm, bs) = Inr (bm', bs')"
      using r False res by auto
    from alt show ?thesis
    proof
      assume a: "bm' = bm \<and> bs' = bs \<and>
             (\<forall>x \<in> set cs. \<forall>r'. calculate_similarity q x = Inr r' \<longrightarrow> \<not> (bs < r' \<and> th \<le> r'))"
      then have "bm' = bm \<and> bs' = bs \<and>
         (\<forall>x \<in> set (c # cs). \<forall>r'. calculate_similarity q x = Inr r' \<longrightarrow> \<not> (bs < r' \<and> th \<le> r'))"
        using r False by auto
      then show ?thesis using eq by blast
    next
      assume "\<exists>pre c' post. cs = pre @ c' # post \<and> bm' = Some c' \<and>
               calculate_similarity q c' = Inr bs' \<and> th \<le> bs' \<and> bs < bs' \<and>
               (\<forall>x \<in> set pre. \<forall>r'. calculate_similarity q x = Inr r' \<longrightarrow> r' < bs') \<and>
               (\<forall>x \<in> set post. \<forall>r'. calculate_similarity q x = Inr r' \<longrightarrow> r' \<le> bs')"
      then obtain pre c' post where p: "cs = pre @ c' # post" "bm' = Some c'"
               "calculate_similarity q c' = Inr bs'" "th \<le> bs'" "bs < bs'"
               "\<forall>x \<in> set pre. \<forall>r'. calculate_similarity q x = Inr r' \<longrightarrow> r' < bs'"
               "\<forall>x \<in> set post. \<forall>r'. calculate_similarity q x = Inr r' \<longrightarrow> r' \<le> bs'"
        by blast
      have "r < bs'" using False p(4,5) by force
      then have "c # cs = (c # pre) @ c' # post \<and> bm' = Some c' \<and>
         calculate_similarity q c' = Inr bs' \<and> th \<le> bs' \<and> bs < bs' \<and>
         (\<forall>x \<in> set (c # pre). \<forall>r. calculate_similarity q x = Inr r \<longrightarrow> r < bs') \<and>
         (\<forall>x \<in> set post. \<forall>r. calculate_similarity q x = Inr r \<longrightarrow> r \<le> bs')"
        using p r by auto
      then show ?thesis using eq by blast
    qed
  qed
qed


lemma find_best_match_cases:
  "\<exists>res. find_best_match self q cs = Inr res \<and>
     (res = None \<longleftrightarrow>
        (\<forall>x \<in> set cs. \<forall>r. calculate_similarity q x = Inr r \<longrightarrow> \<not> (0 < r \<and> m_threshold self \<le> r))) \<and>
     (\<forall>c s. res = Some (c, s) \<longrightarrow>
        (\<exists>pre post. cs = pre @ c # post \<and> calculate_similarity q c = Inr s \<and>
           m_threshold self \<le> s \<and> 0 < s \<and>
           (\<forall>x \<in> set pre. \<forall>r. calculate_similarity q x = Inr r \<longrightarrow> r < s) \<and>
           (\<forall>x \<in> set post. \<forall>r. calculate_similarity q x = Inr r \<longrightarrow> r \<le> s)))"
proof (cases "q = [] \<or> cs = []")
  case True
  then have "find_best_match self q cs = Inr None"
    by (simp add: find_best_match_def)
  moreover have "\<forall>x \<in> set cs. \<forall>r. calculate_similarity q x = Inr r \<longrightarrow> \<not> (0 < r \<and> m_threshold self \<le> r)"
    using True by (auto simp: calculate_similarity_empty)
  ultimately show ?thesis by simp
next
  case False
  from best_match_loop_result[of "m_threshold self" q cs None 0] obtain bm' bs' where
    res: "best_match_loop (m_threshold self) q cs (None, 0) = Inr (bm', bs')" and
    alt: "(bm' = None \<and> bs' = 0 \<and>
           (\<forall>x \<in> set cs. \<forall>r. calculate_similarity q x = Inr r \<longrightarrow> \<not> (0 < r \<and> m_threshold self \<le> r))) \<or>
          (\<exists>pre c post. cs = pre @ c # post \<and> bm' = Some c \<and>
             calculate_similarity q c = Inr bs' \<and> m_threshold self \<le> bs' \<and> 0 < bs' \<and>
             (\<forall>x \<in> set pre. \<forall>r. calculate_similarity q x = Inr r \<longrightarrow> r < bs') \<and>
             (\<forall>x \<in> set post. \<forall>r. calculate_similarity q x = Inr r \<longrightarrow> r \<le> bs'))"
    by blast
  from alt show ?thesis
  proof
    assume a: "bm' = None \<and> bs' = 0 \<and>
           (\<forall>x \<in> set cs. \<forall>r. calculate_similarity q x = Inr r \<longrightarrow> \<not> (0 < r \<and> m_threshold self \<le> r))"
    then have "find_best_match self q cs = Inr None"
      using False res by (simp add: find_best_match_def)
    then show ?thesis using a by simp
  next
    assume "\<exists>pre c post. cs = pre @ c # post \<and> bm' = Some c \<and>
             calculate_similarity q c = Inr bs' \<and> m_threshold self \<le> bs' \<and> 0 < bs' \<and>
             (\<forall>x \<in> set pre. \<forall>r. calculate_similarity q x = Inr r \<longrightarrow> r < bs') \<and>
             (\<forall>x \<in> set post. \<forall>r. calculate_similarity q x = Inr r \<longrightarrow> r \<le> bs')"
    then obtain pre c post where p: "cs = pre @ c # post" "bm' = Some c"
             "calculate_similarity q c = Inr bs'" "m_threshold self \<le> bs'" "0 < bs'"
             "\<forall>x \<in> set pre. \<forall>r. calculate_similarity q x = Inr r \<longrightarrow> r < bs'"
             "\<forall>x \<in> set post. \<forall>r. calculate_similarity q x = Inr r \<longrightarrow> r \<le> bs'"
      by blast
    have "c \<noteq> []"
      using p(3,5) by (auto simp: calculate_similarity_empty)
    then have eq: "find_best_match self q cs = Inr (Some (c, bs'))"
      using False res p(2) by (simp add: find_best_match_def)
    have "c \<in> set cs" using p(1) by simp
    then have "\<not> (\<forall>x \<in> set cs. \<forall>r. calculate_similarity q x = Inr r \<longrightarrow> \<not> (0 < r \<and> m_threshold self \<le> r))"
      using p(3,4,5) by blast
    then show ?thesis using eq p by auto
  qed
qed

lemma similarity_abc_xyz: "calculate_similarity ''abc'' ''xyz'' = Inr 0"
  by code_simp

lemma similarity_kaunas_kauno:
  "calculate_similarity ''Kaunas Zalgiris'' ''Kauno Zalgiris'' = Inr (16205897 / 19000800)"
  by code_simp

text \<open>
  C6 (as written: the selector returns nothing exactly when no candidate's score reaches
  the threshold). With threshold 0 the candidate \<open>xyz\<close> scores 0 against \<open>abc\<close>, which
  reaches the threshold, and the selector still returns nothing: a candidate replaces the
  initial best score 0.0 only with a strictly greater score.
\<close>

theorem C6_counterexample:
  "find_best_match \<lparr>m_threshold = 0\<rparr> ''abc'' [''xyz''] = Inr None \<and>
   calculate_similarity ''abc'' ''xyz'' = Inr 0 \<and>
   m_threshold \<lparr>m_threshold = 0\<rparr> \<le> 0"
  by (simp add: find_best_match_def similarity_abc_xyz)

text \<open>
  C6 (amended): for every query and candidate list the selector returns, and it returns
  nothing exactly when no candidate has a score that is positive and at least the
  threshold. Otherwise it returns a candidate together with its own score, that score is
  positive and at least the threshold, every candidate before it in the list scores
  strictly less and every candidate after it scores at most as much: the first-seen
  candidate with the maximal score.
\<close>

theorem C6_find_best_match:
  "\<exists>res. find_best_match self q cs = Inr res \<and>
     (res = None \<longleftrightarrow>
        (\<forall>x \<in> set cs. \<forall>r. calculate_similarity q x = Inr r \<longrightarrow> \<not> (0 < r \<and> m_threshold self \<le> r))) \<and>
     (\<forall>c s. res = Some (c, s) \<longrightarrow>
        (\<exists>pre post. cs = pre @ c # post \<and> calculate_similarity q c = Inr s \<and>
           m_threshold self \<le> s \<and> 0 < s \<and>
           (\<forall>x \<in> set pre. \<forall>r. calculate_similarity q x = Inr r \<longrightarrow> r < s) \<and>
           (\<forall>x \<in> set post. \<forall>r. calculate_similarity q x = Inr r \<longrightarrow> r \<le> s)))"
  by (rule find_best_match_cases)

theorem C6_witness:
  "find_best_match \<lparr>m_threshold = 75 / 100\<rparr> ''Kaunas Zalgiris'' [''Kauno Zalgiris''] =
     Inr (Some (''Kauno Zalgiris'', 16205897 / 19000800))"
proof -
  let ?m = "\<lparr>m_threshold = 75 / 100\<rparr>"
  let ?q = "''Kaunas Zalgiris''"
  let ?cs = "[''Kauno Zalgiris'']"
  from C6_find_best_match[of ?m ?q ?cs] obtain res where
    res: "find_best_match ?m ?q ?cs = Inr res" and
    none: "res = None \<longleftrightarrow>
        (\<forall>x \<in> set ?cs. \<forall>r. calculate_similarity ?q x = Inr r \<longrightarrow> \<not> (0 < r \<and> m_threshold ?m \<le> r))" and
    some: "\<forall>c s. res = Some (c, s) \<longrightarrow>
        (\<exists>pre post. ?cs = pre @ c # post \<and> calculate_similarity ?q c = Inr s \<and>
           m_threshold ?m \<le> s \<and> 0 < s \<and>
           (\<forall>x \<in> set pre. \<forall>r. calculate_similarity ?q x = Inr r \<longrightarrow> r < s) \<and>
           (\<forall>x \<in> set post. \<forall>r. calculate_similarity ?q x = Inr r \<longrightarrow> r \<le> s))"
    by blast
  have "res \<noteq> None"
  proof
    assume "res = None"
    with none have a: "\<forall>x \<in> set ?cs. \<forall>r. calculate_similarity ?q x = Inr r \<longrightarrow>
        \<not> (0 < r \<and> m_threshold ?m \<le> r)"
      by simp
    have "''Kauno Zalgiris'' \<in> set ?cs"
      by simp
    with a similarity_kaunas_kauno
    have "\<not> (0 < (16205897 / 19000800 :: real) \<and> m_threshold ?m \<le> 16205897 / 19000800)"
      by blast
    then show False
      by simp
  qed
  then obtain c s where cs: "res = Some (c, s)"
    by (cases res) auto
  from some cs obtain pre post where p: "?cs = pre @ c # post"
    "calculate_similarity ?q c = Inr s" "m_threshold ?m \<le> s"
    "\<forall>x \<in> set post. \<forall>r. calculate_similarity ?q x = Inr r \<longrightarrow> r \<le> s"
    by blast
  have "c \<in> set ?cs"
    using p(1) by (metis in_set_conv_decomp)
  then have "c = ''Kauno Zalgiris''" by simp
  then have "c = ''Kauno Zalgiris'' \<and> s = 16205897 / 19000800"
    using p(2) similarity_kaunas_kauno by auto
  then show ?thesis using res cs by simp
qed

text \<open>
  C10: two non-empty, distinct raw strings with equal normalized forms score exactly 1.0
  (the normalized forms may both be empty, as for \<open>FC\<close> and \<open>SC\<close>). Hence, for every
  matching threshold of at most 1 and every candidate list that holds the second string,
  the selector returns a match with score 1.0, and the returned candidate itself scores 1.0
  against the query.
\<close>

theorem C10_equal_normal_forms:
  assumes "s1 \<noteq> []" "s2 \<noteq> []" "s1 \<noteq> s2" "normalize_text s1 = normalize_text s2"
  shows "calculate_similarity s1 s2 = Inr 1 \<and>
         (\<forall>self cs. m_threshold self \<le> 1 \<and> s2 \<in> set cs \<longrightarrow>
            (\<exists>c. find_best_match self s1 cs = Inr (Some (c, 1)) \<and> c \<in> set cs \<and>
                 calculate_similarity s1 c = Inr 1))"
proof -
  have one: "calculate_similarity s1 s2 = Inr 1"
    using assms by (simp add: calculate_similarity_def)
  have "\<exists>c. find_best_match self s1 cs = Inr (Some (c, 1)) \<and> c \<in> set cs \<and>
            calculate_similarity s1 c = Inr 1"
    if th: "m_threshold self \<le> 1" and mem: "s2 \<in> set cs" for self cs
  proof -
    from find_best_match_cases[of self s1 cs] obtain res where
      res: "find_best_match self s1 cs = Inr res" and
      none: "res = None \<longleftrightarrow>
        (\<forall>x \<in> set cs. \<forall>r. calculate_similarity s1 x = Inr r \<longrightarrow> \<not> (0 < r \<and> m_threshold self \<le> r))" and
      some: "\<forall>c s. res = Some (c, s) \<longrightarrow>
        (\<exists>pre post. cs = pre @ c # post \<and> calculate_similarity s1 c = Inr s \<and>
           m_threshold self \<le> s \<and> 0 < s \<and>
           (\<forall>x \<in> set pre. \<forall>r. calculate_similarity s1 x = Inr r \<longrightarrow> r < s) \<and>
           (\<forall>x \<in> set post. \<forall>r. calculate_similarity s1 x = Inr r \<longrightarrow> r \<le> s))"
      by blast
    have "res \<noteq> None"
      using none one th mem by force
    then obtain c s where cs: "res = Some (c, s)"
      by (cases res) auto
    from some cs obtain pre post where p: "cs = pre @ c # post"
      "calculate_similarity s1 c = Inr s"
      "\<forall>x \<in> set pre. \<forall>r. calculate_similarity s1 x = Inr r \<longrightarrow> r < s"
      "\<forall>x \<in> set post. \<forall>r. calculate_similarity s1 x = Inr r \<longrightarrow> r \<le> s"
      by blast
    have "s \<le> 1"
      using calculate_similarity_total[of s1 c] p(2) by auto
    moreover have "1 \<le> s"
    proof -
      from mem p(1) have "s2 \<in> set pre \<or> s2 = c \<or> s2 \<in> set post" by auto
      then show ?thesis using one p(2,3,4) by force
    qed
    ultimately have "s = 1" by simp
    then show ?thesis using res cs p(1,2) by auto
  qed
  then show ?thesis using one by blast
qed

theorem C10_witness:
  "''FC'' \<noteq> [] \<and> ''SC'' \<noteq> [] \<and> ''FC'' \<noteq> ''SC'' \<and>
   normalize_text ''FC'' = normalize_text ''SC'' \<and>
   calculate_similarity ''FC'' ''SC'' = Inr 1 \<and>
   (\<exists>c. find_best_match \<lparr>m_threshold = 75 / 100\<rparr> ''FC'' [''SC''] = Inr (Some (c, 1)))"
proof -
  have n: "normalize_text ''FC'' = normalize_text ''SC''"
    by code_simp
  have pre: "''FC'' \<noteq> []" "''SC'' \<noteq> []" "''FC'' \<noteq> ''SC''"
    by simp_all
  from C10_equal_normal_forms[OF pre n] have
    one: "calculate_similarity ''FC'' ''SC'' = Inr 1" and
    all: "\<forall>self cs. m_threshold self \<le> 1 \<and> ''SC'' \<in> set cs \<longrightarrow>
            (\<exists>c. find_best_match self ''FC'' cs = Inr (Some (c, 1)) \<and> c \<in> set cs \<and>
                 calculate_similarity ''FC'' c = Inr 1)"
    by blast+
  have "m_threshold \<lparr>m_threshold = 75 / 100\<rparr> \<le> 1 \<and> ''SC'' \<in> set [''SC'']"
    by simp
  with all have "\<exists>c. find_best_match \<lparr>m_threshold = 75 / 100\<rparr> ''FC'' [''SC''] = Inr (Some (c, 1))"
    by blast
  then show ?thesis using n one by simp
qed

section \<open>Registry and standardization policy: properties\<close>

lemma str_lower_Nil [simp]: "str_lower s = [] \<longleftrightarrow> s = []"
  by (simp add: str_lower_def)

lemma lower_char_idem: "lower_char (lower_char c) = lower_char c"
proof -
  have "of_char (char_of (of_char c + 32 :: nat)) = ((of_char c + 32) mod 256 :: nat)"
    by (rule of_char_of)
  then show ?thesis
    unfolding lower_char_def Let_def by (auto simp: mod_if)
qed

lemma str_lower_idem [simp]: "str_lower (str_lower s) = str_lower s"
  by (simp add: str_lower_def lower_char_idem)

lemma str_strip_Nil [simp]: "str_strip [] = []"
  by (simp add: str_strip_def)

lemma candidates_of_cache_append:
  "candidates_of (cache_append sp name cache) sp' =
     (if sp' = sp then candidates_of cache sp @ [name] else candidates_of cache sp')"
  by (simp add: candidates_of_def cache_append_def update_conv')

lemma registry_names_append:
  "registry_names (teams @ [t]) sp =
     registry_names teams sp @
       (if str_lower (sport t) = sp \<and> canonical_team_name t \<noteq> [] then [canonical_team_name t] else [])"
  by (simp add: registry_names_def)

lemma build_cache_fold:
  fixes step :: "team \<Rightarrow> (string \<times> string list) list \<Rightarrow> (string \<times> string list) list"
  defines "step \<equiv> (\<lambda>t cache.
             let sp = str_lower (sport t); canonical_name = canonical_team_name t
             in if sp \<noteq> [] \<and> canonical_name \<noteq> [] then cache_append sp canonical_name cache
                else cache)"
  shows "candidates_of (fold step teams acc) sp =
           candidates_of acc sp @ (if sp = [] then [] else registry_names teams sp)"
proof (induction teams arbitrary: acc)
  case Nil
  then show ?case by (simp add: registry_names_def)
next
  case (Cons t teams)
  have "candidates_of (step t acc) sp =
          candidates_of acc sp @
            (if sp \<noteq> [] \<and> str_lower (sport t) = sp \<and> canonical_team_name t \<noteq> []
             then [canonical_team_name t] else [])"
    unfolding step_def Let_def by (auto simp: candidates_of_cache_append)
  then show ?case
    by (simp add: Cons.IH) (auto simp: registry_names_def)
qed

lemma candidates_of_build_cache:
  "candidates_of (build_cache teams) sp = (if sp = [] then [] else registry_names teams sp)"
  unfolding build_cache_def using build_cache_fold[of teams "[]" sp]
  by (simp add: candidates_of_def)

lemma candidates_of_init:
  "sp \<noteq> [] \<Longrightarrow>
   candidates_of (sport_teams_cache (standardizer_init teams_data th auto_add_th bucket)) sp =
     registry_names teams_data sp"
  by (simp add: standardizer_init_def candidates_of_build_cache)

lemma exact_lookup_candidates:
  "exact_lookup cache sp team_name =
     find (\<lambda>canonical_name. str_lower canonical_name = str_lower team_name) (candidates_of cache sp)"
  by (simp add: exact_lookup_def candidates_of_def split: option.splits)

lemma best_existing_result:
  "\<exists>bs' bc'. best_existing q cs (bs, bc) = Inr (bs', bc') \<and> bs \<le> bs' \<and>
     (\<forall>x \<in> set cs. \<forall>r. calculate_similarity q x = Inr r \<longrightarrow> r \<le> bs') \<and>
     ((bs' = bs \<and> bc' = bc) \<or> (\<exists>x \<in> set cs. calculate_similarity q x = Inr bs' \<and> bc' = Some x))"
proof (induction cs arbitrary: bs bc)
  case Nil
  then show ?case by simp
next
  case (Cons c cs)
  obtain r where r: "calculate_similarity q c = Inr r"
    using calculate_similarity_total by blast
  show ?case
  proof (cases "bs < r")
    case True
    from Cons.IH[of r "Some c"] obtain bs' bc' where
      "best_existing q cs (r, Some c) = Inr (bs', bc')" "r \<le> bs'"
      "\<forall>x \<in> set cs. \<forall>r. calculate_similarity q x = Inr r \<longrightarrow> r \<le> bs'"
      "(bs' = r \<and> bc' = Some c) \<or> (\<exists>x \<in> set cs. calculate_similarity q x = Inr bs' \<and> bc' = Some x)"
      by blast
    then show ?thesis using r True by auto
  next
    case False
    from Cons.IH[of bs bc] obtain bs' bc' where
      "best_existing q cs (bs, bc) = Inr (bs', bc')" "bs \<le> bs'"
      "\<forall>x \<in> set cs. \<forall>r. calculate_similarity q x = Inr r \<longrightarrow> r \<le> bs'"
      "(bs' = bs \<and> bc' = bc) \<or> (\<exists>x \<in> set cs. calculate_similarity q x = Inr bs' \<and> bc' = Some x)"
      by blast
    then show ?thesis using r False by auto
  qed
qed

lemma standardize_exact:
  assumes "str_strip raw_name \<noteq> []"
    and "exact_lookup (sport_teams_cache self) (str_lower raw_sport) (str_strip raw_name) = Some c"
  shows "standardize_team_name self raw_name raw_sport auto_add = Inr ((c, Exact_match 1), self)"
  using assms by (auto simp: standardize_team_name_def Let_def)

text \<open>What a call can do to the standardizer: nothing, or one appended entry.\<close>

lemma standardize_effect:
  assumes "standardize_team_name self raw_name raw_sport auto_add = Inr (res, self')"
  shows "self' = self \<or>
         (str_strip raw_name \<noteq> [] \<and>
          exact_lookup (sport_teams_cache self) (str_lower raw_sport) (str_strip raw_name) = None \<and>
          self' = self\<lparr>teams_map := teams_map self @
                           [\<lparr>sport = str_lower raw_sport, canonical_team_name = str_strip raw_name\<rparr>],
                        new_teams_added := new_teams_added self @
                           [\<lparr>sport = str_lower raw_sport, canonical_team_name = str_strip raw_name\<rparr>],
                        sport_teams_cache := cache_append (str_lower raw_sport) (str_strip raw_name)
                           (sport_teams_cache self)\<rparr>)"
  using assms
  by (auto simp: standardize_team_name_def no_match_decision_def Let_def
           split: if_splits option.splits sum.splits prod.splits)

lemma standardize_preserves_index:
  assumes "standardize_team_name self raw_name raw_sport auto_add = Inr (res, self')"
    and "candidates_of (sport_teams_cache self) sp = registry_names (teams_map self) sp"
  shows "candidates_of (sport_teams_cache self') sp = registry_names (teams_map self') sp"
  using standardize_effect[OF assms(1)] assms(2)
  by (auto simp: candidates_of_cache_append registry_names_append)

lemma standardize_preserves_unique:
  assumes call: "standardize_team_name self raw_name raw_sport auto_add = Inr (res, self')"
    and idx: "candidates_of (sport_teams_cache self) (str_lower raw_sport) =
              registry_names (teams_map self) (str_lower raw_sport)"
    and uniq: "unique_keys (teams_map self)"
  shows "unique_keys (teams_map self')"
proof -
  from standardize_effect[OF call] show ?thesis
  proof
    assume "self' = self"
    then show ?thesis using uniq by simp
  next
    let ?n = "str_strip raw_name"
    let ?sp = "str_lower raw_sport"
    assume a: "?n \<noteq> [] \<and> exact_lookup (sport_teams_cache self) ?sp ?n = None \<and>
      self' = self\<lparr>teams_map := teams_map self @ [\<lparr>sport = ?sp, canonical_team_name = ?n\<rparr>],
                   new_teams_added := new_teams_added self @ [\<lparr>sport = ?sp, canonical_team_name = ?n\<rparr>],
                   sport_teams_cache := cache_append ?sp ?n (sport_teams_cache self)\<rparr>"
    then have none: "\<forall>c \<in> set (registry_names (teams_map self) ?sp). str_lower c \<noteq> str_lower ?n"
      using idx by (auto simp: exact_lookup_candidates find_None_iff)
    have "(?sp, str_lower ?n) \<notin> entry_key ` set (teams_map self)"
    proof
      assume "(?sp, str_lower ?n) \<in> entry_key ` set (teams_map self)"
      then obtain t where t: "t \<in> set (teams_map self)" "str_lower (sport t) = ?sp"
        "str_lower (canonical_team_name t) = str_lower ?n"
        by (auto simp: entry_key_def)
      then have "canonical_team_name t \<noteq> []"
        using a by (metis str_lower_Nil)
      then have "canonical_team_name t \<in> set (registry_names (teams_map self) ?sp)"
        using t by (auto simp: registry_names_def)
      then show False using none t(3) by blast
    qed
    then show ?thesis
      using a uniq by (auto simp: unique_keys_def entry_key_def)
  qed
qed

text \<open>
  C2 (as written: the call returns raw_name unchanged and appends an entry for that
  category and name). On an empty registry the name \<open>" Ajax"\<close> in category \<open>"Soccer"\<close> is
  auto-added, but the call returns the trimmed name \<open>"Ajax"\<close> and the appended entry
  carries the lowercased category \<open>"soccer"\<close> and the trimmed name.
\<close>

theorem C2_counterexample:
  "standardize_team_name (standardizer_init [] (75 / 100) (70 / 100) None) '' Ajax'' ''Soccer'' True =
     Inr ((''Ajax'', Auto_added 0 None),
          \<lparr>teams_map = [\<lparr>sport = ''soccer'', canonical_team_name = ''Ajax''\<rparr>],
           threshold = 75 / 100, auto_add_threshold = 70 / 100, cloud_storage_bucket = None,
           matcher = \<lparr>m_threshold = 75 / 100\<rparr>,
           sport_teams_cache = [(''soccer'', [''Ajax''])],
           new_teams_added = [\<lparr>sport = ''soccer'', canonical_team_name = ''Ajax''\<rparr>]\<rparr>) \<and>
   ''Ajax'' \<noteq> '' Ajax'' \<and> ''soccer'' \<noteq> ''Soccer''"
  by code_simp

text \<open>
  C2 (amended): for every category whose lowercased form has no candidates in the cache
  and every name that is not blank, a call with auto_add = True and the default auto-add
  threshold 0.70 returns the trimmed name with status \<open>auto_added\<close> (best existing score
  0, no best existing name), and appends the entry (lowercased category, trimmed name) to
  the registry, to the session addition log and to the category's candidates.
\<close>

theorem C2_auto_add_empty_category:
  assumes "str_strip raw_name \<noteq> []"
    and "candidates_of (sport_teams_cache self) (str_lower raw_sport) = []"
    and "auto_add_threshold self = 70 / 100"
  shows "standardize_team_name self raw_name raw_sport True =
           Inr ((str_strip raw_name, Auto_added 0 None),
                self\<lparr>teams_map := teams_map self @
                        [\<lparr>sport = str_lower raw_sport, canonical_team_name = str_strip raw_name\<rparr>],
                     new_teams_added := new_teams_added self @
                        [\<lparr>sport = str_lower raw_sport, canonical_team_name = str_strip raw_name\<rparr>],
                     sport_teams_cache := cache_append (str_lower raw_sport) (str_strip raw_name)
                        (sport_teams_cache self)\<rparr>) \<and>
         status (Auto_added 0 None) = ''auto_added'' \<and>
         candidates_of (cache_append (str_lower raw_sport) (str_strip raw_name) (sport_teams_cache self))
            (str_lower raw_sport) = [str_strip raw_name]"
proof -
  have ne: "raw_name \<noteq> []"
    using assms(1) by auto
  show ?thesis
  proof (cases "map_of (sport_teams_cache self) (str_lower raw_sport)")
    case None
    then show ?thesis
      using assms ne
      by (simp add: standardize_team_name_def no_match_decision_def exact_lookup_def Let_def
                    candidates_of_cache_append)
  next
    case (Some names)
    then have "names = []"
      using assms(2) by (simp add: candidates_of_def)
    then show ?thesis
      using assms ne Some
      by (simp add: standardize_team_name_def no_match_decision_def exact_lookup_def Let_def
                    find_best_match_def candidates_of_cache_append)
  qed
qed

theorem C2_witness:
  "str_strip ''Brand New FC'' \<noteq> [] \<and>
   candidates_of (sport_teams_cache (standardizer_init [] (75 / 100) (70 / 100) None))
      (str_lower ''Basketball'') = [] \<and>
   standardize_team_name (standardizer_init [] (75 / 100) (70 / 100) None)
      ''Brand New FC'' ''Basketball'' True =
     Inr ((''Brand New FC'', Auto_added 0 None),
          \<lparr>teams_map = [\<lparr>sport = ''basketball'', canonical_team_name = ''Brand New FC''\<rparr>],
           threshold = 75 / 100, auto_add_threshold = 70 / 100, cloud_storage_bucket = None,
           matcher = \<lparr>m_threshold = 75 / 100\<rparr>,
           sport_teams_cache = [(''basketball'', [''Brand New FC''])],
           new_teams_added = [\<lparr>sport = ''basketball'', canonical_team_name = ''Brand New FC''\<rparr>]\<rparr>)"
proof -
  let ?self = "standardizer_init [] (75 / 100) (70 / 100) None"
  have h1: "str_strip ''Brand New FC'' \<noteq> []"
    by code_simp
  have h2: "candidates_of (sport_teams_cache ?self) (str_lower ''Basketball'') = []"
    by (simp add: standardizer_init_def build_cache_def candidates_of_def)
  have h3: "auto_add_threshold ?self = 70 / 100"
    by (simp add: standardizer_init_def)
  have s: "str_strip ''Brand New FC'' = ''Brand New FC''"
    by code_simp
  have l: "str_lower ''Basketball'' = ''basketball''"
    by code_simp
  from C2_auto_add_empty_category[OF h1 h2 h3] show ?thesis
    using h1 h2 by (simp add: s l standardizer_init_def build_cache_def cache_append_def)
qed


text \<open>
  C1 (as written: every name case-insensitively equal to a stored canonical name of the
  category resolves as \<open>exact_match\<close> without mutation). Two inputs where it does not:
  the stored name \<open>" Ajax"\<close> queried as \<open>" Ajax"\<close> is trimmed before the comparison and
  resolves as \<open>fuzzy_match\<close>; an entry with the empty category is not indexed, so a query
  for it in the empty category is auto-added and the registry is mutated.
\<close>

theorem C1_counterexample:
  "standardize_team_name
     (standardizer_init [\<lparr>sport = ''soccer'', canonical_team_name = '' Ajax''\<rparr>] (75 / 100) (70 / 100) None)
     '' Ajax'' ''soccer'' True =
     Inr (('' Ajax'', Fuzzy_match 1 '' Ajax''),
          standardizer_init [\<lparr>sport = ''soccer'', canonical_team_name = '' Ajax''\<rparr>] (75 / 100) (70 / 100) None) \<and>
   standardize_team_name
     (standardizer_init [\<lparr>sport = [], canonical_team_name = ''Ajax''\<rparr>] (75 / 100) (70 / 100) None)
     ''Ajax'' [] True =
     Inr ((''Ajax'', Auto_added 0 None),
          \<lparr>teams_map = [\<lparr>sport = [], canonical_team_name = ''Ajax''\<rparr>,
                        \<lparr>sport = [], canonical_team_name = ''Ajax''\<rparr>],
           threshold = 75 / 100, auto_add_threshold = 70 / 100, cloud_storage_bucket = None,
           matcher = \<lparr>m_threshold = 75 / 100\<rparr>,
           sport_teams_cache = [([], [''Ajax''])],
           new_teams_added = [\<lparr>sport = [], canonical_team_name = ''Ajax''\<rparr>]\<rparr>)"
  by code_simp

text \<open>
  C1 (amended): take any standardizer in which the candidates cached for the lowercased
  category are the names of the registry entries of that category (the constructor and
  every call keep this for each non-empty category), any thresholds and any auto_add flag.
  If the trimmed name is not blank and is case-insensitively equal to the canonical name of
  some entry of the category, the call returns the first stored name of the category that
  is case-insensitively equal to the trimmed name, with status \<open>exact_match\<close> and score
  1.0, and leaves the standardizer unchanged.
\<close>

theorem C1_exact_match:
  assumes idx: "candidates_of (sport_teams_cache self) (str_lower raw_sport) =
                registry_names (teams_map self) (str_lower raw_sport)"
    and e: "e \<in> set (teams_map self)" "str_lower (sport e) = str_lower raw_sport"
    and ne: "str_strip raw_name \<noteq> []"
    and eq: "str_lower (canonical_team_name e) = str_lower (str_strip raw_name)"
  shows "\<exists>c. standardize_team_name self raw_name raw_sport auto_add =
               Inr ((c, Exact_match 1), self) \<and>
             status (Exact_match 1) = ''exact_match'' \<and>
             find (\<lambda>n. str_lower n = str_lower (str_strip raw_name))
                  (registry_names (teams_map self) (str_lower raw_sport)) = Some c \<and>
             c \<in> set (registry_names (teams_map self) (str_lower raw_sport)) \<and>
             str_lower c = str_lower (str_strip raw_name)"
proof -
  let ?names = "registry_names (teams_map self) (str_lower raw_sport)"
  let ?P = "\<lambda>n. str_lower n = str_lower (str_strip raw_name)"
  have "canonical_team_name e \<noteq> []"
    using ne eq by (metis str_lower_Nil)
  then have mem: "canonical_team_name e \<in> set ?names"
    using e by (auto simp: registry_names_def)
  then have "find ?P ?names \<noteq> None"
    using eq by (auto simp: find_None_iff)
  then obtain c where c: "find ?P ?names = Some c"
    by auto
  then have props: "c \<in> set ?names" "?P c"
    using find_Some_set[OF c] by auto
  have "exact_lookup (sport_teams_cache self) (str_lower raw_sport) (str_strip raw_name) = Some c"
    using c idx by (simp add: exact_lookup_candidates)
  from standardize_exact[OF ne this] show ?thesis
    using c props by auto
qed

theorem C1_witness:
  "standardize_team_name
     (standardizer_init [\<lparr>sport = ''Basketball'', canonical_team_name = ''Kauno Zalgiris''\<rparr>]
        (75 / 100) (70 / 100) None)
     '' kauno ZALGIRIS '' ''BASKETBALL'' True =
   Inr ((''Kauno Zalgiris'', Exact_match 1),
        standardizer_init [\<lparr>sport = ''Basketball'', canonical_team_name = ''Kauno Zalgiris''\<rparr>]
          (75 / 100) (70 / 100) None)"
proof -
  let ?e = "\<lparr>sport = ''Basketball'', canonical_team_name = ''Kauno Zalgiris''\<rparr>"
  let ?self = "standardizer_init [?e] (75 / 100) (70 / 100) None"
  have sp: "str_lower ''BASKETBALL'' = ''basketball''"
    by code_simp
  have idx: "candidates_of (sport_teams_cache ?self) (str_lower ''BASKETBALL'') =
             registry_names (teams_map ?self) (str_lower ''BASKETBALL'')"
    unfolding sp by (subst candidates_of_init) (simp_all add: standardizer_init_def)
  have e: "?e \<in> set (teams_map ?self)"
    by (simp add: standardizer_init_def)
  have s: "str_lower (sport ?e) = str_lower ''BASKETBALL''"
    by code_simp
  have ne: "str_strip '' kauno ZALGIRIS '' \<noteq> []"
    by code_simp
  have eq: "str_lower (canonical_team_name ?e) = str_lower (str_strip '' kauno ZALGIRIS '')"
    by code_simp
  from C1_exact_match[OF idx e s ne eq, of True] obtain c where
    c: "standardize_team_name ?self '' kauno ZALGIRIS '' ''BASKETBALL'' True =
          Inr ((c, Exact_match 1), ?self)"
       "c \<in> set (registry_names (teams_map ?self) (str_lower ''BASKETBALL''))"
    by blast
  have "registry_names (teams_map ?self) (str_lower ''BASKETBALL'') = [''Kauno Zalgiris'']"
    by code_simp
  then have "c = ''Kauno Zalgiris''"
    using c(2) by simp
  then show ?thesis
    using c(1) by simp
qed

lemma similarity_chelsae: "calculate_similarity ''Chelsae'' ''Chelsea'' = Inr (76 / 105)"
  by code_simp

text \<open>
  C3: with matching threshold 0.75 and auto-add threshold 0.70, whatever the registry and
  the auto_add flag: if the query is not empty, no candidate of its category is
  case-insensitively equal to the trimmed query, every candidate scores below 0.75 and some
  candidate scores at least 0.70 (so the best score lies in the gray zone, 0.72 for
  instance), then the call returns the trimmed query with status \<open>no_match_no_add\<close>,
  carrying that best score and a candidate attaining it, and the standardizer is unchanged.
\<close>

theorem C3_gray_zone:
  assumes th: "m_threshold (matcher self) = 75 / 100" "auto_add_threshold self = 70 / 100"
    and ne: "raw_name \<noteq> []"
    and noexact: "\<forall>c \<in> set (candidates_of (sport_teams_cache self) (str_lower raw_sport)).
                    str_lower c \<noteq> str_lower (str_strip raw_name)"
    and below: "\<forall>c \<in> set (candidates_of (sport_teams_cache self) (str_lower raw_sport)).
                  \<forall>r. calculate_similarity (str_strip raw_name) c = Inr r \<longrightarrow> r < 75 / 100"
    and above: "\<exists>c \<in> set (candidates_of (sport_teams_cache self) (str_lower raw_sport)).
                  \<exists>r. calculate_similarity (str_strip raw_name) c = Inr r \<and> 70 / 100 \<le> r"
  shows "\<exists>bs bc. standardize_team_name self raw_name raw_sport auto_add =
                    Inr ((str_strip raw_name, No_match_no_add bs (Some bc) (70 / 100)), self) \<and>
                  status (No_match_no_add bs (Some bc) (70 / 100)) = ''no_match_no_add'' \<and>
                  70 / 100 \<le> bs \<and> bs < 75 / 100 \<and>
                  bc \<in> set (candidates_of (sport_teams_cache self) (str_lower raw_sport)) \<and>
                  calculate_similarity (str_strip raw_name) bc = Inr bs"
proof -
  let ?q = "str_strip raw_name"
  let ?sp = "str_lower raw_sport"
  let ?cs = "candidates_of (sport_teams_cache self) ?sp"
  from above obtain c0 r0 where c0: "c0 \<in> set ?cs" "calculate_similarity ?q c0 = Inr r0" "70 / 100 \<le> r0"
    by blast
  have q: "?q \<noteq> []"
    using c0(2,3) by (auto simp: calculate_similarity_empty)
  have names: "map_of (sport_teams_cache self) ?sp = Some ?cs"
  proof (cases "map_of (sport_teams_cache self) ?sp")
    case None
    then have "?cs = []"
      by (simp add: candidates_of_def)
    then show ?thesis
      using c0(1) by simp
  next
    case (Some ns)
    then have "?cs = ns"
      by (simp add: candidates_of_def)
    then show ?thesis
      using Some by simp
  qed
  have exact: "exact_lookup (sport_teams_cache self) ?sp ?q = None"
    using noexact by (simp add: exact_lookup_candidates find_None_iff)
  from find_best_match_cases[of "matcher self" ?q ?cs] obtain res where
    res: "find_best_match (matcher self) ?q ?cs = Inr res" and
    none: "res = None \<longleftrightarrow>
        (\<forall>x \<in> set ?cs. \<forall>r. calculate_similarity ?q x = Inr r \<longrightarrow>
            \<not> (0 < r \<and> m_threshold (matcher self) \<le> r))"
    by blast
  have "res = None"
    unfolding none th(1) using below by force
  then have fuzzy: "find_best_match (matcher self) ?q ?cs = Inr None"
    using res by simp
  from best_existing_result[of ?q ?cs 0 None] obtain bs bc where
    be: "best_existing ?q ?cs (0, None) = Inr (bs, bc)" and
    ub: "\<forall>x \<in> set ?cs. \<forall>r. calculate_similarity ?q x = Inr r \<longrightarrow> r \<le> bs" and
    alt: "(bs = 0 \<and> bc = None) \<or> (\<exists>x \<in> set ?cs. calculate_similarity ?q x = Inr bs \<and> bc = Some x)"
    by blast
  have lo: "70 / 100 \<le> bs"
    using ub c0 by force
  then obtain x where x: "x \<in> set ?cs" "calculate_similarity ?q x = Inr bs" "bc = Some x"
    using alt by auto
  have hi: "bs < 75 / 100"
    using below x(1,2) by blast
  have "no_match_decision self ?q ?sp auto_add =
          Inr ((?q, No_match_no_add bs (Some x) (70 / 100)), self)"
    using names be x(3) lo th(2) by (simp add: no_match_decision_def)
  then have "standardize_team_name self raw_name raw_sport auto_add =
          Inr ((?q, No_match_no_add bs (Some x) (70 / 100)), self)"
    using ne q exact names fuzzy by (simp add: standardize_team_name_def Let_def)
  then show ?thesis
    using lo hi x by auto
qed

theorem C3_witness:
  "standardize_team_name
     (standardizer_init [\<lparr>sport = ''soccer'', canonical_team_name = ''Chelsea''\<rparr>] (75 / 100) (70 / 100) None)
     ''Chelsae'' ''soccer'' True =
   Inr ((''Chelsae'', No_match_no_add (76 / 105) (Some ''Chelsea'') (70 / 100)),
        standardizer_init [\<lparr>sport = ''soccer'', canonical_team_name = ''Chelsea''\<rparr>] (75 / 100) (70 / 100) None) \<and>
   (70 / 100 :: real) \<le> 76 / 105 \<and> (76 / 105 :: real) < 75 / 100"
proof -
  let ?self = "standardizer_init [\<lparr>sport = ''soccer'', canonical_team_name = ''Chelsea''\<rparr>]
                 (75 / 100) (70 / 100) None"
  have cs: "candidates_of (sport_teams_cache ?self) (str_lower ''soccer'') = [''Chelsea'']"
    by code_simp
  have q: "str_strip ''Chelsae'' = ''Chelsae''"
    by code_simp
  have th: "m_threshold (matcher ?self) = 75 / 100" "auto_add_threshold ?self = 70 / 100"
    by (simp_all add: standardizer_init_def)
  have ne: "''Chelsae'' \<noteq> []"
    by simp
  have noexact: "\<forall>c \<in> set (candidates_of (sport_teams_cache ?self) (str_lower ''soccer'')).
                    str_lower c \<noteq> str_lower (str_strip ''Chelsae'')"
    unfolding cs q by code_simp
  have below: "\<forall>c \<in> set (candidates_of (sport_teams_cache ?self) (str_lower ''soccer'')).
                  \<forall>r. calculate_similarity (str_strip ''Chelsae'') c = Inr r \<longrightarrow> r < 75 / 100"
    unfolding cs q using similarity_chelsae by simp
  have above: "\<exists>c \<in> set (candidates_of (sport_teams_cache ?self) (str_lower ''soccer'')).
                  \<exists>r. calculate_similarity (str_strip ''Chelsae'') c = Inr r \<and> 70 / 100 \<le> r"
    unfolding cs q using similarity_chelsae by (auto intro!: exI[of _ "76 / 105"])
  from C3_gray_zone[OF th ne noexact below above, of True] obtain bs bc where
    r: "standardize_team_name ?self ''Chelsae'' ''soccer'' True =
          Inr ((str_strip ''Chelsae'', No_match_no_add bs (Some bc) (70 / 100)), ?self)"
       "bc \<in> set (candidates_of (sport_teams_cache ?self) (str_lower ''soccer''))"
       "calculate_similarity (str_strip ''Chelsae'') bc = Inr bs"
    by blast
  have "bc = ''Chelsea''"
    using r(2) unfolding cs by simp
  moreover have "bs = 76 / 105"
    using r(3) calculation similarity_chelsae unfolding q by simp
  ultimately show ?thesis
    using r(1) unfolding q by simp
qed

lemma run_calls_unique:
  assumes "\<forall>sp. P sp \<longrightarrow> candidates_of (sport_teams_cache self) sp = registry_names (teams_map self) sp"
    and "unique_keys (teams_map self)"
    and "\<forall>call \<in> set calls. P (str_lower (fst (snd call)))"
  shows "unique_keys (teams_map (run_calls self calls))"
  using assms
proof (induction calls arbitrary: self)
  case Nil
  then show ?case by simp
next
  case (Cons call calls)
  obtain raw_name raw_sport auto_add where call: "call = (raw_name, raw_sport, auto_add)"
    by (cases call) auto
  show ?case
  proof (cases "standardize_team_name self raw_name raw_sport auto_add")
    case (Inl e)
    then show ?thesis
      using Cons call by simp
  next
    case (Inr r)
    obtain res self' where r: "r = (res, self')"
      by (cases r) auto
    have step: "standardize_team_name self raw_name raw_sport auto_add = Inr (res, self')"
      using Inr r by simp
    have "P (str_lower raw_sport)"
      using Cons.prems(3) call by simp
    then have idx: "candidates_of (sport_teams_cache self) (str_lower raw_sport) =
                    registry_names (teams_map self) (str_lower raw_sport)"
      using Cons.prems(1) by blast
    have u: "unique_keys (teams_map self')"
      by (rule standardize_preserves_unique[OF step idx Cons.prems(2)])
    have i: "\<forall>sp. P sp \<longrightarrow> candidates_of (sport_teams_cache self') sp = registry_names (teams_map self') sp"
      using standardize_preserves_index[OF step] Cons.prems(1) by blast
    have "unique_keys (teams_map (run_calls self' calls))"
      by (rule Cons.IH[OF i u]) (use Cons.prems(3) in simp)
    then show ?thesis
      using step call by simp
  qed
qed

text \<open>
  C4 (as written: from any registry without duplicate keys, any sequence of calls keeps
  the keys unique). A snapshot whose single entry has the empty category has no duplicate
  key; the entry is not indexed, so standardizing its own name in the empty category
  auto-adds a second entry with the same key.
\<close>

theorem C4_counterexample:
  "unique_keys [\<lparr>sport = [], canonical_team_name = ''Ajax''\<rparr>] \<and>
   \<not> unique_keys (teams_map (run_calls
        (standardizer_init [\<lparr>sport = [], canonical_team_name = ''Ajax''\<rparr>] (75 / 100) (70 / 100) None)
        [(''Ajax'', [], True)]))"
  by code_simp

text \<open>
  C4 (amended): construct the standardizer from a snapshot in which no two entries share
  the key (lowercased category, lowercased name), with any thresholds. If no entry of the
  snapshot has an empty category, or no call is made with an empty category, then after any
  finite sequence of calls, with any names and auto_add flags, the registry still has no
  two entries sharing a key.
\<close>

theorem C4_unique_keys_preserved:
  assumes uniq: "unique_keys teams_data"
    and nonempty: "(\<forall>t \<in> set teams_data. sport t \<noteq> []) \<or> (\<forall>call \<in> set calls. fst (snd call) \<noteq> [])"
  shows "unique_keys (teams_map (run_calls (standardizer_init teams_data th auto_add_th bucket) calls))"
proof -
  let ?self = "standardizer_init teams_data th auto_add_th bucket"
  have u: "unique_keys (teams_map ?self)"
    using uniq by (simp add: standardizer_init_def)
  have tm: "teams_map ?self = teams_data" "sport_teams_cache ?self = build_cache teams_data"
    by (simp_all add: standardizer_init_def)
  from nonempty show ?thesis
  proof
    assume a: "\<forall>t \<in> set teams_data. sport t \<noteq> []"
    then have "registry_names teams_data [] = []"
      by (auto simp: registry_names_def filter_empty_conv)
    then have "\<forall>sp. True \<longrightarrow> candidates_of (sport_teams_cache ?self) sp = registry_names (teams_map ?self) sp"
      unfolding tm by (simp add: candidates_of_build_cache)
    then show ?thesis
      by (rule run_calls_unique[where P = "\<lambda>sp. True", OF _ u]) simp
  next
    assume b: "\<forall>call \<in> set calls. fst (snd call) \<noteq> []"
    have "\<forall>sp. sp \<noteq> [] \<longrightarrow> candidates_of (sport_teams_cache ?self) sp = registry_names (teams_map ?self) sp"
      unfolding tm by (simp add: candidates_of_build_cache)
    then show ?thesis
      by (rule run_calls_unique[where P = "\<lambda>sp. sp \<noteq> []", OF _ u]) (use b in simp)
  qed
qed

theorem C4_witness:
  "unique_keys [\<lparr>sport = ''Basketball'', canonical_team_name = ''Kauno Zalgiris''\<rparr>] \<and>
   teams_map (run_calls
      (standardizer_init [\<lparr>sport = ''Basketball'', canonical_team_name = ''Kauno Zalgiris''\<rparr>]
         (75 / 100) (70 / 100) None)
      [('' kauno zalgiris'', ''BASKETBALL'', True), (''Brand New FC'', ''Soccer'', True),
       (''brand new fc'', ''soccer'', True)]) =
     [\<lparr>sport = ''Basketball'', canonical_team_name = ''Kauno Zalgiris''\<rparr>,
      \<lparr>sport = ''soccer'', canonical_team_name = ''Brand New FC''\<rparr>] \<and>
   unique_keys (teams_map (run_calls
      (standardizer_init [\<lparr>sport = ''Basketball'', canonical_team_name = ''Kauno Zalgiris''\<rparr>]
         (75 / 100) (70 / 100) None)
      [('' kauno zalgiris'', ''BASKETBALL'', True), (''Brand New FC'', ''Soccer'', True),
       (''brand new fc'', ''soccer'', True)]))"
proof -
  let ?teams = "[\<lparr>sport = ''Basketball'', canonical_team_name = ''Kauno Zalgiris''\<rparr>]"
  let ?calls = "[('' kauno zalgiris'', ''BASKETBALL'', True), (''Brand New FC'', ''Soccer'', True),
       (''brand new fc'', ''soccer'', True)]"
  have h1: "unique_keys ?teams"
    by (simp add: unique_keys_def)
  have h2: "(\<forall>t \<in> set ?teams. sport t \<noteq> []) \<or> (\<forall>call \<in> set ?calls. fst (snd call) \<noteq> [])"
    by simp
  have ev: "teams_map (run_calls (standardizer_init ?teams (75 / 100) (70 / 100) None) ?calls) =
     [\<lparr>sport = ''Basketball'', canonical_team_name = ''Kauno Zalgiris''\<rparr>,
      \<lparr>sport = ''soccer'', canonical_team_name = ''Brand New FC''\<rparr>]"
    by code_simp
  from C4_unique_keys_preserved[OF h1 h2, of "75 / 100" "70 / 100" None] show ?thesis
    using h1 ev by simp
qed

end
